theory Spec2Isabelle
  imports Complex_Main "HOL-Library.Char_ord" "HOL-Library.List_Lexorder"
begin

section \<open>Strings\<close>

text \<open>
  Python strings are modelled as \<^typ>\<open>string\<close>, the UTF-8 bytes of the text. The keyword
  tables of the source are ASCII, so a substring test on the bytes agrees with the one on
  code points. \<open>str.lower\<close> is modelled on the ASCII letters; bytes of other code points
  are left as they are.
\<close>

definition lower_char :: "char \<Rightarrow> char" where
  "lower_char c =
     (let n = (of_char c :: nat)
      in if of_char CHR ''A'' \<le> n \<and> n \<le> of_char CHR ''Z'' then char_of (n + 32) else c)"

definition lower :: "string \<Rightarrow> string" where
  "lower s = map lower_char s"

definition upper_char :: "char \<Rightarrow> char" where
  "upper_char c =
     (let n = (of_char c :: nat)
      in if of_char CHR ''a'' \<le> n \<and> n \<le> of_char CHR ''z'' then char_of (n - 32) else c)"

definition upper :: "string \<Rightarrow> string" where
  "upper s = map upper_char s"

text \<open>\<open>sub in s\<close> of Python: \<open>sub\<close> occurs in \<open>s\<close> as a contiguous run.\<close>

fun starts_with :: "string \<Rightarrow> string \<Rightarrow> bool" where
  "starts_with [] s = True"
| "starts_with (k # ks) [] = False"
| "starts_with (k # ks) (c # cs) = (k = c \<and> starts_with ks cs)"

fun py_in :: "string \<Rightarrow> string \<Rightarrow> bool" where
  "py_in sub [] = (sub = [])"
| "py_in sub (c # cs) = (starts_with sub (c # cs) \<or> py_in sub cs)"

text \<open>\<open>str(n)\<close> for an integer: decimal digits, with a minus sign when negative.\<close>

fun digit_char :: "nat \<Rightarrow> char" where
  "digit_char n = char_of (48 + n mod 10)"

function str_nat :: "nat \<Rightarrow> string" where
  "str_nat n = (if n < 10 then [digit_char n] else str_nat (n div 10) @ [digit_char n])"
  by pat_completeness auto
termination
  by (relation "measure id") auto

declare str_nat.simps [simp del]

definition str_int :: "int \<Rightarrow> string" where
  "str_int i = (if i < 0 then CHR ''-'' # str_nat (nat (- i)) else str_nat (nat i))"

text \<open>An \<open>Optional[str]\<close> is falsy when it is \<open>None\<close> or the empty string.\<close>

fun truthy :: "string option \<Rightarrow> bool" where
  "truthy None = False"
| "truthy (Some s) = (s \<noteq> [])"

text \<open>An \<open>Optional[str]\<close> inside an f-string: \<open>None\<close> prints as the word.\<close>

fun fmt_opt :: "string option \<Rightarrow> string" where
  "fmt_opt None = ''None''"
| "fmt_opt (Some s) = s"

section \<open>Error classification\<close>

definition rate_limit_indicators :: "string list" where
  "rate_limit_indicators =
     [''rate limit'', ''rate_limit'', ''too many requests'', ''429'',
      ''quota exceeded'', ''quota_exceeded'', ''throttled'',
      ''api limit'', ''api_limit'', ''request limit'']"

definition is_rate_limit_error :: "string \<Rightarrow> bool" where
  "is_rate_limit_error error_msg =
     (let error_lower = lower error_msg
      in list_ex (\<lambda>indicator. py_in indicator error_lower) rate_limit_indicators)"

definition quota_exceeded_indicators :: "string list" where
  "quota_exceeded_indicators =
     [''quota exceeded'', ''quota_exceeded'', ''exceeded your current quota'',
      ''limit: 200'', ''free_tier_requests'']"

definition is_quota_exceeded_error :: "string \<Rightarrow> bool" where
  "is_quota_exceeded_error error_msg =
     (let error_lower = lower error_msg
      in list_ex (\<lambda>indicator. py_in indicator error_lower) quota_exceeded_indicators)"


section \<open>Data model\<close>

text \<open>The exceptions that leave the functions modelled here.\<close>

datatype py_error = ValueError string | ZeroDivisionError | TypeError | AttributeError

text \<open>
  The values that the serialised state of the engine can hold under \<open>price_stats\<close>,
  which \<open>_analyze_single_stock\<close> copies into the result without a check: \<open>None\<close>, a
  number, a string, or a dictionary with string keys (an association list read by its first
  match). Numbers (Python bools, finite floats, and ints within the range of a float) are
  modelled as rationals, so sums and quotients are exact and \<open>True\<close> is the number 1.
  Lists, the floats \<open>nan\<close> and \<open>inf\<close>, and ints too large for a float (whose
  division raises \<open>OverflowError\<close>) are left out.
\<close>

datatype py_value = PNone | PNum rat | PStr string | PDict "(string \<times> py_value) list"

text \<open>The empty dictionary \<open>{}\<close> that stands for missing statistics.\<close>

definition no_stats :: py_value where
  "no_stats = PDict []"

text \<open>
  What \<open>TradingAgentsAnalyzer.analyze_stock\<close> returns on success: the extracted text
  and the serialised state, of which the code reads the entry \<open>price_stats\<close>
  (\<open>None\<close> here when the state is empty or has no such key).
\<close>

record llm_insights =
  insights :: string
  raw_state_price_stats :: "py_value option"

text \<open>
  \<open>StockAnalysisResult\<close> without \<open>analysis_time\<close> and \<open>data_period\<close>
  (a timestamp and a label that no decision reads).
\<close>

record StockAnalysisResult =
  symbol :: string
  market_type :: string
  stats :: py_value
  llm :: "llm_insights option"
  error :: "string option"

text \<open>The batch settings that the control flow reads.\<close>

record settings =
  max_concurrent :: int
  delay_between_requests :: int
  max_retries :: int
  batch_delay_multiplier :: int
  stop_on_quota_exceeded :: bool

text \<open>
  The observable effects of a run: the symbols handed to \<open>_analyze_single_stock\<close>, one
  entry per attempt, and the total time slept.
\<close>

record world =
  calls :: "string list"
  waited :: int

text \<open>
  \<open>time.sleep\<close>: \<open>Inl msg\<close> is the \<open>ValueError\<close> with the text \<open>msg\<close> that a
  negative length raises.
\<close>

definition sleep :: "int \<Rightarrow> world \<Rightarrow> string + world" where
  "sleep secs w =
     (if secs < 0 then Inl ''sleep length must be non-negative''
      else Inr (w\<lparr>waited := waited w + secs\<rparr>))"

text \<open>UTF-8 text of the messages the source writes in Chinese.\<close>

definition market_us :: string where
  "market_us = [CHR 0xE7, CHR 0xBE, CHR 0x8E, CHR 0xE8, CHR 0x82, CHR 0xA1]"

definition market_a :: string where
  "market_a = [CHR 0x41, CHR 0xE8, CHR 0x82, CHR 0xA1]"

definition market_hk :: string where
  "market_hk = [CHR 0xE6, CHR 0xB8, CHR 0xAF, CHR 0xE8, CHR 0x82, CHR 0xA1]"

definition quota_prefix :: string where
  "quota_prefix =
     [CHR 0xE9, CHR 0x85, CHR 0x8D, CHR 0xE9, CHR 0xA2, CHR 0x9D, CHR 0xE8, CHR 0xB6, CHR 0x85,
      CHR 0xE9, CHR 0x99, CHR 0x90, CHR 0x3A, CHR 0x20]"

definition retry_prefix :: "int \<Rightarrow> string" where
  "retry_prefix n =
     [CHR 0xE9, CHR 0x87, CHR 0x8D, CHR 0xE8, CHR 0xAF, CHR 0x95] @ str_int n @
     [CHR 0xE6, CHR 0xAC, CHR 0xA1, CHR 0xE5, CHR 0x90, CHR 0x8E, CHR 0xE4, CHR 0xBB, CHR 0x8D,
      CHR 0xE5, CHR 0xA4, CHR 0xB1, CHR 0xE8, CHR 0xB4, CHR 0xA5, CHR 0x3A, CHR 0x20]"

definition quota_skipped :: string where
  "quota_skipped =
     [CHR 0xE9, CHR 0x85, CHR 0x8D, CHR 0xE9, CHR 0xA2, CHR 0x9D, CHR 0xE8, CHR 0xB6, CHR 0x85,
      CHR 0xE9, CHR 0x99, CHR 0x90, CHR 0xEF, CHR 0xBC, CHR 0x8C, CHR 0xE6, CHR 0x9C, CHR 0xAA,
      CHR 0xE5, CHR 0xA4, CHR 0x84, CHR 0xE7, CHR 0x90, CHR 0x86]"

definition no_success_text :: string where
  "no_success_text =
     [CHR 0xE6, CHR 0xB2, CHR 0xA1, CHR 0xE6, CHR 0x9C, CHR 0x89, CHR 0xE6, CHR 0x88, CHR 0x90,
      CHR 0xE5, CHR 0x8A, CHR 0x9F, CHR 0xE7, CHR 0x9A, CHR 0x84, CHR 0xE5, CHR 0x88, CHR 0x86,
      CHR 0xE6, CHR 0x9E, CHR 0x90, CHR 0xE7, CHR 0xBB, CHR 0x93, CHR 0xE6, CHR 0x9E, CHR 0x9C]"

text \<open>
  The result the source builds wherever an analysis did not produce one: market
  \<open>unknown\<close>, empty statistics, and the error text.
\<close>

definition failed_result :: "string \<Rightarrow> string \<Rightarrow> StockAnalysisResult" where
  "failed_result stock msg =
     \<lparr>symbol = stock, market_type = ''unknown'', stats = no_stats, llm = None,
      error = Some msg\<rparr>"

section \<open>The analysis of one stock\<close>

text \<open>
  \<open>propagate k stock\<close> stands for the body of the \<open>try\<close> in \<open>analyze_stock\<close> at the
  \<open>k\<close>-th attempt of the run: the graph's \<open>propagate\<close> and the extraction of its state.
  \<open>Inl msg\<close> is an exception raised there, with \<open>str(e) = msg\<close>.
\<close>

type_synonym engine = "nat \<Rightarrow> string \<Rightarrow> string + llm_insights"

text \<open>
  What the call \<open>self.llm_analyzer.analyze_stock(...)\<close> made at the \<open>k\<close>-th attempt of
  the run does: \<open>Inr found\<close> when it returns \<open>found\<close>, \<open>Inl msg\<close> when it raises an
  exception with \<open>str(e) = msg\<close>.
\<close>

type_synonym analyzer = "nat \<Rightarrow> string \<Rightarrow> string + llm_insights option"

text \<open>
  \<open>TradingAgentsAnalyzer.analyze_stock\<close>: \<open>None\<close> without a graph, and \<open>None\<close> again
  for every exception of the engine, which it catches and logs.
\<close>

definition analyze_stock :: "bool \<Rightarrow> engine \<Rightarrow> analyzer" where
  "analyze_stock graph propagate k stock =
     (if \<not> graph then Inr None
      else case propagate k stock of
             Inr out \<Rightarrow> Inr (Some out)
           | Inl e \<Rightarrow> Inr None)"

text \<open>
  \<open>_detect_market_type\<close>, with the ASCII letters and digits for \<open>[A-Z]\<close> and \<open>\d\<close>.
  In a Python pattern \<open>$\<close> also matches before a newline that ends the string. Python's
  \<open>\d\<close> matches the decimal digits of other scripts too, and \<open>upper\<close> maps letters
  outside ASCII; for a symbol with such characters the market found here can differ from
  the source's. Only \<open>market_type\<close> depends on it.
\<close>

definition is_upper_letter :: "char \<Rightarrow> bool" where
  "is_upper_letter c = (of_char CHR ''A'' \<le> (of_char c :: nat) \<and> (of_char c :: nat) \<le> of_char CHR ''Z'')"

definition is_digit :: "char \<Rightarrow> bool" where
  "is_digit c = (of_char CHR ''0'' \<le> (of_char c :: nat) \<and> (of_char c :: nat) \<le> of_char CHR ''9'')"

definition to_dollar :: "(string \<Rightarrow> bool) \<Rightarrow> string \<Rightarrow> bool" where
  "to_dollar body s =
     (body s \<or> (s \<noteq> [] \<and> last s = CHR 0x0A \<and> body (butlast s)))"

definition us_code :: "string \<Rightarrow> bool" where
  "us_code s = (1 \<le> length s \<and> length s \<le> 5 \<and> list_all is_upper_letter s)"

definition a_code :: "string \<Rightarrow> bool" where
  "a_code s = (length s = 6 \<and> list_all is_digit s)"

definition hk_digits :: "string \<Rightarrow> bool" where
  "hk_digits s = (4 \<le> length s \<and> length s \<le> 5 \<and> list_all is_digit s)"

definition hk_code :: "string \<Rightarrow> bool" where
  "hk_code s =
     (hk_digits s \<or>
      (3 \<le> length s \<and> drop (length s - 3) s = ''.HK'' \<and> hk_digits (take (length s - 3) s)))"

definition detect_market_type :: "string \<Rightarrow> string" where
  "detect_market_type stock =
     (if to_dollar us_code (upper stock) then market_us
      else if to_dollar a_code stock then market_a
      else if to_dollar hk_code (upper stock) then market_hk
      else market_us)"

text \<open>
  What \<open>_analyze_with_retry\<close> gets from one call of \<open>_analyze_single_stock\<close>: a result,
  or an exception with its text.
\<close>

datatype attempt = Returned StockAnalysisResult | Raised string

text \<open>
  The body of the \<open>try\<close> in \<open>_analyze_single_stock\<close>, for an analyzer with or without
  a graph: \<open>Inl msg\<close> when the call of the analyzer raises. The rest of the body does
  not raise on a string symbol.
\<close>

definition single_stock_body ::
  "bool \<Rightarrow> analyzer \<Rightarrow> nat \<Rightarrow> string \<Rightarrow> string + StockAnalysisResult" where
  "single_stock_body graph llm_analyzer k stock =
     (let mt = detect_market_type stock
      in case (if graph then llm_analyzer k stock else Inr None) of
           Inl e \<Rightarrow> Inl e
         | Inr found \<Rightarrow>
             (let ps = (case found of
                          None \<Rightarrow> no_stats
                        | Some ins \<Rightarrow>
                            (case raw_state_price_stats ins of
                               None \<Rightarrow> no_stats
                             | Some p \<Rightarrow> p))
              in Inr \<lparr>symbol = stock, market_type = mt, stats = ps, llm = found,
                       error = None\<rparr>))"

text \<open>\<open>_analyze_single_stock\<close>: every exception of the body becomes a result with its text.\<close>

definition analyze_single_stock :: "bool \<Rightarrow> analyzer \<Rightarrow> nat \<Rightarrow> string \<Rightarrow> attempt" where
  "analyze_single_stock graph llm_analyzer k stock =
     (case single_stock_body graph llm_analyzer k stock of
        Inr result \<Rightarrow> Returned result
      | Inl e \<Rightarrow> Returned (failed_result stock e))"

section \<open>Retrying one stock\<close>

text \<open>
  \<open>single k stock\<close> is the call \<open>self._analyze_single_stock(symbol)\<close> made as the
  \<open>k\<close>-th attempt of the run.
\<close>

type_synonym analysis = "nat \<Rightarrow> string \<Rightarrow> attempt"

datatype handled = Return_now StockAnalysisResult | Next_attempt

text \<open>The \<open>except Exception\<close> clause of \<open>_analyze_with_retry\<close>, after \<open>last_error\<close> is set.\<close>

definition on_exception ::
  "settings \<Rightarrow> string \<Rightarrow> nat \<Rightarrow> string \<Rightarrow> world \<Rightarrow> py_error + (handled \<times> world)" where
  "on_exception cfg stock attempt error_str w =
     (if is_quota_exceeded_error error_str then
        Inr (Return_now (failed_result stock (quota_prefix @ error_str)), w)
      else if is_rate_limit_error error_str then
        (if int attempt < max_retries cfg then
           (case sleep (delay_between_requests cfg * 5 * 2 ^ attempt) w of
              Inl e \<Rightarrow> Inl (ValueError e)
            | Inr w' \<Rightarrow> Inr (Next_attempt, w'))
         else Inr (Next_attempt, w))
      else if int attempt < max_retries cfg then
        (case sleep (delay_between_requests cfg) w of
           Inl e \<Rightarrow> Inl (ValueError e)
         | Inr w' \<Rightarrow> Inr (Next_attempt, w'))
      else Inr (Next_attempt, w))"

text \<open>
  The \<open>for attempt in range(...)\<close> loop over the attempts still to make, with
  \<open>last_error\<close>. An exception of \<open>time.sleep\<close> inside the \<open>try\<close> is caught like any
  other; one raised in the handler leaves the function.
\<close>

fun retry_loop ::
  "settings \<Rightarrow> analysis \<Rightarrow> string \<Rightarrow> nat list \<Rightarrow> string option \<Rightarrow> world
     \<Rightarrow> py_error + (StockAnalysisResult \<times> world)" where
  "retry_loop cfg single stock [] last_error w =
     Inr (failed_result stock (retry_prefix (max_retries cfg) @ fmt_opt last_error), w)"
| "retry_loop cfg single stock (attempt # rest) last_error w =
     (case (if attempt > 0 then sleep (delay_between_requests cfg * 2 ^ attempt) w else Inr w) of
        Inl msg \<Rightarrow>
          (case on_exception cfg stock attempt msg w of
             Inl e \<Rightarrow> Inl e
           | Inr (Return_now r, w') \<Rightarrow> Inr (r, w')
           | Inr (Next_attempt, w') \<Rightarrow> retry_loop cfg single stock rest (Some msg) w')
      | Inr w1 \<Rightarrow>
          (let w2 = w1\<lparr>calls := calls w1 @ [stock]\<rparr>
           in case single (length (calls w1)) stock of
                Returned result \<Rightarrow>
                  if \<not> truthy (error result) then Inr (result, w2)
                  else retry_loop cfg single stock rest (error result) w2
              | Raised msg \<Rightarrow>
                  (case on_exception cfg stock attempt msg w2 of
                     Inl e \<Rightarrow> Inl e
                   | Inr (Return_now r, w') \<Rightarrow> Inr (r, w')
                   | Inr (Next_attempt, w') \<Rightarrow> retry_loop cfg single stock rest (Some msg) w')))"

definition analyze_with_retry ::
  "settings \<Rightarrow> analysis \<Rightarrow> string \<Rightarrow> world \<Rightarrow> py_error + (StockAnalysisResult \<times> world)" where
  "analyze_with_retry cfg single stock w =
     retry_loop cfg single stock [0..<nat (max_retries cfg + 1)] None w"


section \<open>The summary\<close>

text \<open>Python's \<open>/\<close> by a length: it raises when the divisor is zero.\<close>

definition py_truediv :: "rat \<Rightarrow> nat \<Rightarrow> py_error + rat" where
  "py_truediv a n = (if n = 0 then Inl ZeroDivisionError else Inr (a / of_nat n))"

text \<open>\<open>d[k] = d.get(k, 0) + 1\<close> on a dictionary that keeps insertion order.\<close>

fun bump :: "(string \<times> nat) list \<Rightarrow> string \<Rightarrow> (string \<times> nat) list" where
  "bump [] k = [(k, 1)]"
| "bump ((k', c) # d) k = (if k' = k then (k', c + 1) # d else (k', c) # bump d k)"

text \<open>The truth value of a Python value, as \<open>if price_range:\<close> takes it.\<close>

fun py_truthy :: "py_value \<Rightarrow> bool" where
  "py_truthy PNone = False"
| "py_truthy (PNum r) = (r \<noteq> 0)"
| "py_truthy (PStr s) = (s \<noteq> [])"
| "py_truthy (PDict d) = (d \<noteq> [])"

text \<open>
  \<open>v.get(k, dflt)\<close>: a dictionary returns the entry or the default; \<open>None\<close>, a number
  and a string have no such method, and the call raises \<open>AttributeError\<close>.
\<close>

fun py_get :: "py_value \<Rightarrow> string \<Rightarrow> py_value \<Rightarrow> py_error + py_value" where
  "py_get (PDict d) k dflt = Inr (case map_of d k of None \<Rightarrow> dflt | Some v \<Rightarrow> v)"
| "py_get PNone k dflt = Inl AttributeError"
| "py_get (PNum r) k dflt = Inl AttributeError"
| "py_get (PStr s) k dflt = Inl AttributeError"

text \<open>
  \<open>avg_volatility += volatility\<close> on the running sum, which is a number: anything but a
  number on the right raises \<open>TypeError\<close>.
\<close>

fun py_add :: "rat \<Rightarrow> py_value \<Rightarrow> py_error + rat" where
  "py_add a (PNum r) = Inr (a + r)"
| "py_add a PNone = Inl TypeError"
| "py_add a (PStr s) = Inl TypeError"
| "py_add a (PDict d) = Inl TypeError"

record range_entry =
  entry_symbol :: string
  entry_min :: py_value
  entry_max :: py_value

record summary_acc =
  market_distribution :: "(string \<times> nat) list"
  avg_volatility :: rat
  price_ranges :: "range_entry list"

text \<open>
  The body of the loop over the successful results, statement by statement; the first
  exception ends it.
\<close>

definition summary_step :: "StockAnalysisResult \<Rightarrow> summary_acc \<Rightarrow> py_error + summary_acc" where
  "summary_step result acc =
     (let dist = bump (market_distribution acc) (market_type result)
      in case py_get (stats result) ''price_volatility'' (PNum 0) of
           Inl e \<Rightarrow> Inl e
         | Inr volatility \<Rightarrow>
             (case py_add (avg_volatility acc) volatility of
                Inl e \<Rightarrow> Inl e
              | Inr volatility_sum \<Rightarrow>
                  (case py_get (stats result) ''price_range'' (PDict []) of
                     Inl e \<Rightarrow> Inl e
                   | Inr pr \<Rightarrow>
                       if py_truthy pr then
                         (case py_get pr ''min'' (PNum 0) of
                            Inl e \<Rightarrow> Inl e
                          | Inr lo \<Rightarrow>
                              (case py_get pr ''max'' (PNum 0) of
                                 Inl e \<Rightarrow> Inl e
                               | Inr hi \<Rightarrow>
                                   Inr \<lparr>market_distribution = dist, avg_volatility = volatility_sum,
                                        price_ranges = price_ranges acc @
                                          [\<lparr>entry_symbol = symbol result, entry_min = lo,
                                            entry_max = hi\<rparr>]\<rparr>))
                       else Inr \<lparr>market_distribution = dist, avg_volatility = volatility_sum,
                                 price_ranges = price_ranges acc\<rparr>)))"

fun summary_loop :: "StockAnalysisResult list \<Rightarrow> summary_acc \<Rightarrow> py_error + summary_acc" where
  "summary_loop [] acc = Inr acc"
| "summary_loop (result # rest) acc =
     (case summary_step result acc of
        Inl e \<Rightarrow> Inl e
      | Inr acc' \<Rightarrow> summary_loop rest acc')"

text \<open>
  \<open>price_ranges.sort(key=lambda x: x['max'], reverse=True)\<close>. Python reverses the list,
  sorts it stably by \<open><\<close> on the keys and reverses it again. A list of fewer than two
  entries is compared with nothing. Numbers are ordered among themselves, and so are
  strings (by code points, which is the order of their UTF-8 bytes); every other
  comparison (of \<open>None\<close>, of a dictionary, of a number with a string) raises
  \<open>TypeError\<close>, and a sort of two or more entries makes one unless all keys are numbers
  or all are strings.
\<close>

fun is_num :: "py_value \<Rightarrow> bool" where
  "is_num (PNum r) = True"
| "is_num PNone = False"
| "is_num (PStr s) = False"
| "is_num (PDict d) = False"

fun is_str :: "py_value \<Rightarrow> bool" where
  "is_str (PStr s) = True"
| "is_str PNone = False"
| "is_str (PNum r) = False"
| "is_str (PDict d) = False"

fun the_num :: "py_value \<Rightarrow> rat" where
  "the_num (PNum r) = r"
| "the_num PNone = 0"
| "the_num (PStr s) = 0"
| "the_num (PDict d) = 0"

fun the_str :: "py_value \<Rightarrow> string" where
  "the_str (PStr s) = s"
| "the_str PNone = []"
| "the_str (PNum r) = []"
| "the_str (PDict d) = []"

definition sort_by_max :: "range_entry list \<Rightarrow> py_error + range_entry list" where
  "sort_by_max xs =
     (if length xs \<le> 1 then Inr xs
      else if list_all (\<lambda>x. is_num (entry_max x)) xs then
        Inr (rev (sort_key (\<lambda>x. the_num (entry_max x)) (rev xs)))
      else if list_all (\<lambda>x. is_str (entry_max x)) xs then
        Inr (rev (sort_key (\<lambda>x. the_str (entry_max x)) (rev xs)))
      else Inl TypeError)"

datatype summary =
    No_Successes string
  | Summary "(string \<times> nat) list" rat "range_entry list" nat rat

text \<open>
  \<open>_generate_summary\<close> on \<open>self.results\<close>: the marker when no result is without an
  error, otherwise the distribution of markets, the mean volatility, the five entries with
  the largest \<open>max\<close>, the number of successful results and the success rate.
\<close>

definition generate_summary :: "StockAnalysisResult list \<Rightarrow> py_error + summary" where
  "generate_summary rs =
     (let successful_results = filter (\<lambda>r. \<not> truthy (error r)) rs
      in if successful_results = [] then Inr (No_Successes no_success_text)
         else
           (case summary_loop successful_results
                   \<lparr>market_distribution = [], avg_volatility = 0, price_ranges = []\<rparr> of
              Inl e \<Rightarrow> Inl e
            | Inr acc \<Rightarrow>
                (case py_truediv (avg_volatility acc) (length successful_results) of
                   Inl e \<Rightarrow> Inl e
                 | Inr avg \<Rightarrow>
                     (case sort_by_max (price_ranges acc) of
                        Inl e \<Rightarrow> Inl e
                      | Inr ranked \<Rightarrow>
                          (case py_truediv (of_nat (length successful_results)) (length rs) of
                             Inl e \<Rightarrow> Inl e
                           | Inr rate \<Rightarrow>
                               Inr (Summary (market_distribution acc) avg (take 5 ranked)
                                      (length successful_results) (rate * 100)))))))"

text \<open>
  Statistics that the summary can read: a dictionary whose \<open>price_volatility\<close>, when
  there is one, is a number, and whose \<open>price_range\<close>, when there is one, is falsy or a
  dictionary with numbers under \<open>min\<close> and \<open>max\<close>, where it has them.
\<close>

definition numeric_entry :: "(string \<times> py_value) list \<Rightarrow> string \<Rightarrow> bool" where
  "numeric_entry d k = (case map_of d k of None \<Rightarrow> True | Some v \<Rightarrow> is_num v)"

fun numeric_range :: "py_value \<Rightarrow> bool" where
  "numeric_range (PDict p) = (numeric_entry p ''min'' \<and> numeric_entry p ''max'')"
| "numeric_range PNone = True"
| "numeric_range (PNum r) = (r = 0)"
| "numeric_range (PStr s) = (s = [])"

fun numeric_stats :: "py_value \<Rightarrow> bool" where
  "numeric_stats (PDict d) =
     (numeric_entry d ''price_volatility'' \<and>
      (case map_of d ''price_range'' of None \<Rightarrow> True | Some pr \<Rightarrow> numeric_range pr))"
| "numeric_stats PNone = False"
| "numeric_stats (PNum r) = False"
| "numeric_stats (PStr s) = False"

section \<open>The batch run\<close>

text \<open>
  \<open>BatchAnalysisResult\<close> without \<open>timestamp\<close> and \<open>duration\<close>, and the state
  \<open>run_batch_analysis\<close> updates: \<open>self.results\<close> and its two counters.
\<close>

record BatchAnalysisResult =
  total_symbols :: nat
  successful_analyses :: nat
  failed_analyses :: nat
  results :: "StockAnalysisResult list"
  summary :: summary

record run_state =
  collected :: "StockAnalysisResult list"
  successful :: nat
  failed :: nat

text \<open>\<open>range(0, n, step)\<close> for \<open>n \<ge> 0\<close>, as it is called on the list of symbols.\<close>

definition range_step :: "nat \<Rightarrow> int \<Rightarrow> py_error + nat list" where
  "range_step n step =
     (if step = 0 then Inl (ValueError ''range() arg 3 must not be zero'')
      else if step < 0 then Inr []
      else Inr (map (\<lambda>k. k * nat step) [0..<(n + nat step - 1) div nat step]))"

definition symbol_batches :: "settings \<Rightarrow> string list \<Rightarrow> py_error + string list list" where
  "symbol_batches cfg symbols =
     (let batch_size = min (max_concurrent cfg) (int (length symbols))
      in case range_step (length symbols) batch_size of
           Inl e \<Rightarrow> Inl e
         | Inr starts \<Rightarrow> Inr (map (\<lambda>i. take (nat batch_size) (drop i symbols)) starts))"

definition quota_stop :: "settings \<Rightarrow> StockAnalysisResult \<Rightarrow> bool" where
  "quota_stop cfg result =
     (stop_on_quota_exceeded cfg \<and>
      (case error result of None \<Rightarrow> False | Some msg \<Rightarrow> is_quota_exceeded_error msg))"

text \<open>
  The inner loop, over the enumerated rest of one batch. On a quota error it appends a
  placeholder for every symbol after \<open>global_idx\<close> and leaves by \<open>break\<close>, before the
  \<open>append\<close> of the result itself and before the sleep.
\<close>

fun batch_loop ::
  "settings \<Rightarrow> analysis \<Rightarrow> string list \<Rightarrow> nat \<Rightarrow> nat \<Rightarrow> nat \<Rightarrow> (nat \<times> string) list
     \<Rightarrow> run_state \<Rightarrow> world \<Rightarrow> py_error + (run_state \<times> world)" where
  "batch_loop cfg single symbols batch_idx batch_size len_batch [] rs w = Inr (rs, w)"
| "batch_loop cfg single symbols batch_idx batch_size len_batch ((i, stock) # rest) rs w =
     (let global_idx = (batch_idx - 1) * batch_size + i
      in case analyze_with_retry cfg single stock w of
           Inl e \<Rightarrow> Inl e
         | Inr (result, w1) \<Rightarrow>
             if truthy (error result) \<and> quota_stop cfg result then
               Inr (rs\<lparr>failed := failed rs + 1,
                       collected := collected rs @
                         map (\<lambda>remaining. failed_result remaining quota_skipped)
                           (drop global_idx symbols)\<rparr>, w1)
             else
               (let rs1 = (if truthy (error result) then rs\<lparr>failed := failed rs + 1\<rparr>
                           else rs\<lparr>successful := successful rs + 1\<rparr>);
                    rs2 = rs1\<lparr>collected := collected rs1 @ [result]\<rparr>
                in case (if i < len_batch then sleep (delay_between_requests cfg) w1
                         else Inr w1) of
                     Inl e \<Rightarrow> Inl (ValueError e)
                   | Inr w2 \<Rightarrow>
                       batch_loop cfg single symbols batch_idx batch_size len_batch rest rs2 w2))"

text \<open>The outer loop, over the enumerated batches still to process.\<close>

fun batches_loop ::
  "settings \<Rightarrow> analysis \<Rightarrow> string list \<Rightarrow> nat \<Rightarrow> nat \<Rightarrow> (nat \<times> string list) list
     \<Rightarrow> run_state \<Rightarrow> world \<Rightarrow> py_error + (run_state \<times> world)" where
  "batches_loop cfg single symbols batch_size n_batches [] rs w = Inr (rs, w)"
| "batches_loop cfg single symbols batch_size n_batches ((batch_idx, symbol_batch) # rest) rs w =
     (case batch_loop cfg single symbols batch_idx batch_size (length symbol_batch)
             (enumerate 1 symbol_batch) rs w of
        Inl e \<Rightarrow> Inl e
      | Inr (rs1, w1) \<Rightarrow>
          (case (if batch_idx < n_batches
                 then sleep (delay_between_requests cfg * batch_delay_multiplier cfg) w1
                 else Inr w1) of
             Inl e \<Rightarrow> Inl (ValueError e)
           | Inr w2 \<Rightarrow> batches_loop cfg single symbols batch_size n_batches rest rs1 w2))"

text \<open>
  The two loops of \<open>run_batch_analysis\<close> on a fresh analyzer (\<open>self.results = []\<close>),
  from the split into batches to the state in which \<open>_generate_summary\<close> is called.
\<close>

definition analysis_loops ::
  "settings \<Rightarrow> analysis \<Rightarrow> string list \<Rightarrow> world \<Rightarrow> py_error + (run_state \<times> world)" where
  "analysis_loops cfg single symbols w =
     (case symbol_batches cfg symbols of
        Inl e \<Rightarrow> Inl e
      | Inr batches \<Rightarrow>
          (let batch_size = nat (min (max_concurrent cfg) (int (length symbols)))
           in batches_loop cfg single symbols batch_size (length batches)
                (enumerate 1 batches) \<lparr>collected = [], successful = 0, failed = 0\<rparr> w))"

text \<open>
  \<open>run_batch_analysis\<close>, up to the \<open>BatchAnalysisResult\<close> it builds. The call of
  \<open>_save_results\<close> that follows (files, e-mail) is left out: it changes neither the
  result nor \<open>self.results\<close>, but it can raise, so the source may return nothing where
  this function returns a result.
\<close>

definition run_batch_analysis ::
  "settings \<Rightarrow> analysis \<Rightarrow> string list \<Rightarrow> world \<Rightarrow> py_error + (BatchAnalysisResult \<times> world)" where
  "run_batch_analysis cfg single symbols w =
     (case analysis_loops cfg single symbols w of
        Inl e \<Rightarrow> Inl e
      | Inr (rs, w') \<Rightarrow>
          (case generate_summary (collected rs) of
             Inl e \<Rightarrow> Inl e
           | Inr sm \<Rightarrow>
               Inr (\<lparr>total_symbols = length symbols,
                     successful_analyses = successful rs,
                     failed_analyses = failed rs, results = collected rs,
                     summary = sm\<rparr>, w')))"

text \<open>
  The run of \<open>BatchStockLLMAnalyzer\<close> with a given analyzer, and with the
  \<open>TradingAgentsAnalyzer\<close> of the source on a given engine.
\<close>

definition run_with_analyzer ::
  "settings \<Rightarrow> bool \<Rightarrow> analyzer \<Rightarrow> string list \<Rightarrow> world
     \<Rightarrow> py_error + (BatchAnalysisResult \<times> world)" where
  "run_with_analyzer cfg graph llm_analyzer symbols w =
     run_batch_analysis cfg (analyze_single_stock graph llm_analyzer) symbols w"

definition run_with_engine ::
  "settings \<Rightarrow> bool \<Rightarrow> engine \<Rightarrow> string list \<Rightarrow> world
     \<Rightarrow> py_error + (BatchAnalysisResult \<times> world)" where
  "run_with_engine cfg graph propagate symbols w =
     run_with_analyzer cfg graph (analyze_stock graph propagate) symbols w"


section \<open>Sending the report\<close>

text \<open>
  One entry of \<open>configs\<close> in \<open>send_email\<close>, without its \<open>name\<close> (a label for the
  log), and the fields of \<open>EmailSender\<close> that \<open>send_email\<close> reads.
\<close>

record smtp_config =
  port :: int
  use_ssl :: bool
  use_tls :: bool

record EmailSender =
  enabled :: bool
  smtp_server :: string
  smtp_port :: int
  self_use_tls :: bool
  self_use_ssl :: bool

text \<open>
  The exceptions a step of the SMTP dialogue can raise, by the \<open>except\<close> clause that
  catches them, and the steps in the order \<open>send_email\<close> takes them.
\<close>

datatype smtp_exn =
  SMTPAuthenticationError | SMTPException | ConnectionError | OSError | Other_Exception

datatype smtp_step = Connect_SSL | Connect_Plain | Starttls | Login | Send_Message | Quit

text \<open>
  \<open>net k config step\<close>: what the network does to \<open>step\<close> when \<open>config\<close> is the \<open>k\<close>-th
  configuration tried; \<open>None\<close> when the step goes through.
\<close>

type_synonym network = "nat \<Rightarrow> smtp_config \<Rightarrow> smtp_step \<Rightarrow> smtp_exn option"

definition smtp_steps :: "smtp_config \<Rightarrow> smtp_step list" where
  "smtp_steps config =
     (if use_ssl config then [Connect_SSL] else [Connect_Plain]) @
     (if use_tls config \<and> \<not> use_ssl config then [Starttls] else []) @
     [Login, Send_Message, Quit]"

fun first_exception :: "(smtp_step \<Rightarrow> smtp_exn option) \<Rightarrow> smtp_step list \<Rightarrow> smtp_exn option" where
  "first_exception f [] = None"
| "first_exception f (st # sts) =
     (case f st of Some e \<Rightarrow> Some e | None \<Rightarrow> first_exception f sts)"

definition try_config :: "network \<Rightarrow> nat \<Rightarrow> smtp_config \<Rightarrow> smtp_exn option" where
  "try_config net k config = first_exception (net k config) (smtp_steps config)"

text \<open>
  The loop \<open>for config in configs\<close>, from the \<open>k\<close>-th configuration on. It returns the
  value of \<open>send_email\<close> and the configurations it tried, in order.
\<close>

fun try_configs :: "network \<Rightarrow> nat \<Rightarrow> smtp_config list \<Rightarrow> bool \<times> smtp_config list" where
  "try_configs net k [] = (False, [])"
| "try_configs net k (config # rest) =
     (case try_config net k config of
        None \<Rightarrow> (True, [config])
      | Some SMTPAuthenticationError \<Rightarrow> (False, [config])
      | Some SMTPException \<Rightarrow>
          (let (ok, tried) = try_configs net (Suc k) rest in (ok, config # tried))
      | Some ConnectionError \<Rightarrow>
          (let (ok, tried) = try_configs net (Suc k) rest in (ok, config # tried))
      | Some OSError \<Rightarrow>
          (let (ok, tried) = try_configs net (Suc k) rest in (ok, config # tried))
      | Some Other_Exception \<Rightarrow>
          (let (ok, tried) = try_configs net (Suc k) rest in (ok, config # tried)))"

text \<open>The fallback list for 163 mail: SSL(465), no encryption(25), TLS(587).\<close>

definition netease_configs :: "smtp_config list" where
  "netease_configs =
     [\<lparr>port = 465, use_ssl = True, use_tls = False\<rparr>,
      \<lparr>port = 25, use_ssl = False, use_tls = False\<rparr>,
      \<lparr>port = 587, use_ssl = False, use_tls = True\<rparr>]"

definition configs_of :: "EmailSender \<Rightarrow> smtp_config list" where
  "configs_of s =
     (if py_in ''163.com'' (smtp_server s) then netease_configs
      else [\<lparr>port = smtp_port s, use_ssl = self_use_ssl s, use_tls = self_use_tls s\<rparr>])"

definition send_email :: "network \<Rightarrow> EmailSender \<Rightarrow> bool \<times> smtp_config list" where
  "send_email net s =
     (if \<not> enabled s then (False, []) else try_configs net 0 (configs_of s))"


text \<open>
  What the \<open>i\<close>-th configuration of a list yields when \<open>send_email\<close> tries it, and the
  outcomes after which the loop goes on to the next configuration.
\<close>

definition delivery :: "network \<Rightarrow> smtp_config list \<Rightarrow> nat \<Rightarrow> smtp_exn option" where
  "delivery net configs i = try_config net i (configs ! i)"

fun transient :: "smtp_exn option \<Rightarrow> bool" where
  "transient None = False"
| "transient (Some SMTPAuthenticationError) = False"
| "transient (Some e) = True"

text \<open>
  A failed attempt that is neither a rate-limit nor a quota error, and the text of a
  failure as \<open>_analyze_with_retry\<close> records it in \<open>last_error\<close>.
\<close>

fun transient_failure :: "attempt \<Rightarrow> bool" where
  "transient_failure (Returned result) =
     (case error result of
        None \<Rightarrow> False
      | Some msg \<Rightarrow> msg \<noteq> [] \<and> \<not> is_rate_limit_error msg \<and> \<not> is_quota_exceeded_error msg)"
| "transient_failure (Raised msg) =
     (\<not> is_rate_limit_error msg \<and> \<not> is_quota_exceeded_error msg)"

fun failure_text :: "attempt \<Rightarrow> string" where
  "failure_text (Returned result) = fmt_opt (error result)"
| "failure_text (Raised msg) = msg"

text \<open>An analyzer none of whose exceptions carries a quota message.\<close>

definition quota_free :: "analyzer \<Rightarrow> bool" where
  "quota_free llm_analyzer =
     (\<forall>k stock msg. llm_analyzer k stock = Inl msg \<longrightarrow> \<not> is_quota_exceeded_error msg)"

text \<open>
  An analyzer, and an engine, whose every \<open>price_stats\<close> the summary can read; a result
  that the summary skips or can read.
\<close>

definition numeric_analyzer :: "analyzer \<Rightarrow> bool" where
  "numeric_analyzer llm_analyzer =
     (\<forall>k stock ins ps. llm_analyzer k stock = Inr (Some ins) \<and>
        raw_state_price_stats ins = Some ps \<longrightarrow> numeric_stats ps)"

definition numeric_engine :: "engine \<Rightarrow> bool" where
  "numeric_engine propagate =
     (\<forall>k stock ins ps. propagate k stock = Inr ins \<and>
        raw_state_price_stats ins = Some ps \<longrightarrow> numeric_stats ps)"

definition readable :: "StockAnalysisResult \<Rightarrow> bool" where
  "readable r = (truthy (error r) \<or> numeric_stats (stats r))"

text \<open>An ASCII letter.\<close>

definition letter :: "char \<Rightarrow> bool" where
  "letter c = ((65 \<le> (of_char c :: nat) \<and> (of_char c :: nat) \<le> 90) \<or>
               (97 \<le> (of_char c :: nat) \<and> (of_char c :: nat) \<le> 122))"

text \<open>
  What a run leaves to be seen: the symbol and error of every entry of \<open>results\<close>, in
  order, and the symbols handed to the analysis, one per attempt.
\<close>

definition observed ::
  "py_error + (BatchAnalysisResult \<times> world)
     \<Rightarrow> py_error + ((string \<times> string option) list \<times> string list)" where
  "observed run =
     (case run of
        Inl e \<Rightarrow> Inl e
      | Inr (b, w) \<Rightarrow> Inr (map (\<lambda>r. (symbol r, error r)) (results b), calls w))"

section \<open>Example inputs\<close>

text \<open>Networks: the server rejects the login; the SSL port is closed; no port answers.\<close>

definition login_rejected :: network where
  "login_rejected k config st = (if st = Login then Some SMTPAuthenticationError else None)"

definition ssl_port_closed :: network where
  "ssl_port_closed k config st = (if st = Connect_SSL then Some OSError else None)"

definition unreachable :: network where
  "unreachable k config st =
     (if st = Connect_SSL then Some OSError
      else if st = Connect_Plain then Some ConnectionError else None)"

definition sender_163 :: EmailSender where
  "sender_163 =
     \<lparr>enabled = True, smtp_server = ''smtp.163.com'', smtp_port = 2525,
      self_use_tls = True, self_use_ssl = False\<rparr>"

definition sender_gmail :: EmailSender where
  "sender_gmail =
     \<lparr>enabled = True, smtp_server = ''smtp.gmail.com'', smtp_port = 587,
      self_use_tls = True, self_use_ssl = False\<rparr>"

text \<open>
  The settings \<open>__init__\<close> takes when the configuration names none, the same with
  batches of one stock, and the same with two retries and a delay of one.
\<close>

definition default_settings :: settings where
  "default_settings =
     \<lparr>max_concurrent = 2, delay_between_requests = 3, max_retries = 3,
      batch_delay_multiplier = 2, stop_on_quota_exceeded = True\<rparr>"

definition one_at_a_time :: settings where
  "one_at_a_time = default_settings\<lparr>max_concurrent := 1\<rparr>"

definition two_retries :: settings where
  "two_retries = default_settings\<lparr>max_retries := 2, delay_between_requests := 1\<rparr>"

definition fresh :: world where
  "fresh = \<lparr>calls = [], waited = 0\<rparr>"

text \<open>The result of \<open>_analyze_single_stock\<close> when the analyzer returns \<open>None\<close>.\<close>

definition plain_result :: "string \<Rightarrow> StockAnalysisResult" where
  "plain_result stock =
     \<lparr>symbol = stock, market_type = detect_market_type stock, stats = no_stats, llm = None,
      error = None\<rparr>"

text \<open>
  Analyzers: the call raises for one stock, at every attempt; the call raises at the first
  \<open>n\<close> attempts of the run. Otherwise they return no insights.
\<close>

definition raises_on :: "string \<Rightarrow> string \<Rightarrow> analyzer" where
  "raises_on bad msg k stock = (if stock = bad then Inl msg else Inr None)"

definition raises_first :: "nat \<Rightarrow> string \<Rightarrow> analyzer" where
  "raises_first n msg k stock = (if k < n then Inl msg else Inr None)"

text \<open>
  Engines: every call raises; the first \<open>n\<close> calls of the run raise; the calls for one
  stock raise; every call returns a state with the given \<open>price_stats\<close>.
\<close>

definition engine_down :: "string \<Rightarrow> engine" where
  "engine_down msg k stock = Inl msg"

definition engine_down_first :: "nat \<Rightarrow> string \<Rightarrow> engine" where
  "engine_down_first n msg k stock =
     (if k < n then Inl msg else Inr \<lparr>insights = ''hold'', raw_state_price_stats = None\<rparr>)"

definition engine_down_on :: "string \<Rightarrow> string \<Rightarrow> engine" where
  "engine_down_on bad msg k stock =
     (if stock = bad then Inl msg
      else Inr \<lparr>insights = ''hold'', raw_state_price_stats = None\<rparr>)"




section \<open>Properties of the summary\<close>

lemma successes_nonempty:
  "filter (\<lambda>r. \<not> truthy (error r)) rs \<noteq> [] \<Longrightarrow> rs \<noteq> []"
  by auto







lemma is_num_iff: "is_num v \<longleftrightarrow> (\<exists>r. v = PNum r)"
  by (cases v) auto

lemma numeric_entry_get:
  assumes "numeric_entry d k"
  shows "\<exists>r. py_get (PDict d) k (PNum 0) = Inr (PNum r)"
  using assms by (auto simp: numeric_entry_def is_num_iff split: option.splits)

lemma numeric_range_get:
  assumes "numeric_stats (PDict d)"
  shows "\<exists>pr. py_get (PDict d) ''price_range'' (PDict []) = Inr pr \<and> numeric_range pr"
  using assms by (auto simp: numeric_entry_def split: option.splits)

lemma truthy_numeric_range:
  assumes "numeric_range pr" and "py_truthy pr"
  shows "\<exists>lo r. py_get pr ''min'' (PNum 0) = Inr lo \<and> py_get pr ''max'' (PNum 0) = Inr (PNum r)"
proof (cases pr)
  case (PDict p)
  with assms(1) have "numeric_entry p ''max''" by simp
  from numeric_entry_get[OF this] PDict show ?thesis by auto
qed (use assms in auto)

lemma summary_step_numeric:
  assumes "numeric_stats (stats result)"
    and "list_all (\<lambda>x. is_num (entry_max x)) (price_ranges acc)"
  shows "\<exists>acc'. summary_step result acc = Inr acc' \<and>
           list_all (\<lambda>x. is_num (entry_max x)) (price_ranges acc')"
proof -
  from assms(1) obtain d where d: "stats result = PDict d" "numeric_entry d ''price_volatility''"
    by (cases "stats result") auto
  from numeric_entry_get[OF d(2)] obtain v where
    v: "py_get (stats result) ''price_volatility'' (PNum 0) = Inr (PNum v)"
    using d(1) by auto
  from assms(1) d(1) numeric_range_get[of d] obtain pr where
    pr: "py_get (stats result) ''price_range'' (PDict []) = Inr pr" "numeric_range pr"
    by auto
  show ?thesis
  proof (cases "py_truthy pr")
    case True
    from truthy_numeric_range[OF pr(2) True] obtain lo r where
      "py_get pr ''min'' (PNum 0) = Inr lo" "py_get pr ''max'' (PNum 0) = Inr (PNum r)" by blast
    with v pr(1) True assms(2) show ?thesis by (simp add: summary_step_def Let_def)
  next
    case False
    with v pr(1) assms(2) show ?thesis by (simp add: summary_step_def Let_def)
  qed
qed

lemma summary_loop_numeric:
  assumes "\<forall>r \<in> set rs. numeric_stats (stats r)"
    and "list_all (\<lambda>x. is_num (entry_max x)) (price_ranges acc)"
  shows "\<exists>acc'. summary_loop rs acc = Inr acc' \<and>
           list_all (\<lambda>x. is_num (entry_max x)) (price_ranges acc')"
  using assms
proof (induction rs arbitrary: acc)
  case Nil
  then show ?case by simp
next
  case (Cons r rest)
  from Cons.prems have "numeric_stats (stats r)" by simp
  from summary_step_numeric[OF this Cons.prems(2)] obtain acc1 where
    a: "summary_step r acc = Inr acc1" "list_all (\<lambda>x. is_num (entry_max x)) (price_ranges acc1)"
    by blast
  from Cons.prems(1) have "\<forall>r \<in> set rest. numeric_stats (stats r)" by simp
  from Cons.IH[OF this a(2)] a(1) show ?case by simp
qed

lemma sort_by_max_numeric:
  "list_all (\<lambda>x. is_num (entry_max x)) xs \<Longrightarrow> \<exists>ys. sort_by_max xs = Inr ys"
  by (simp add: sort_by_max_def)

lemma generate_summary_numeric:
  assumes "filter (\<lambda>r. \<not> truthy (error r)) rs \<noteq> []"
    and "\<forall>r \<in> set rs. \<not> truthy (error r) \<longrightarrow> numeric_stats (stats r)"
  shows "\<exists>dist avg top n rate. generate_summary rs = Inr (Summary dist avg top n rate)"
proof -
  let ?ok = "filter (\<lambda>r. \<not> truthy (error r)) rs"
  from assms(2) have "\<forall>r \<in> set ?ok. numeric_stats (stats r)" by simp
  from summary_loop_numeric[OF this,
      of "\<lparr>market_distribution = [], avg_volatility = 0, price_ranges = []\<rparr>"]
  obtain acc where acc: "summary_loop ?ok
      \<lparr>market_distribution = [], avg_volatility = 0, price_ranges = []\<rparr> = Inr acc"
    "list_all (\<lambda>x. is_num (entry_max x)) (price_ranges acc)" by auto
  from sort_by_max_numeric[OF acc(2)] obtain ys where ys: "sort_by_max (price_ranges acc) = Inr ys"
    by blast
  from assms(1) have "rs \<noteq> []" by (rule successes_nonempty)
  with assms(1) acc(1) ys show ?thesis
    by (simp add: generate_summary_def py_truediv_def Let_def)
qed





section \<open>Properties of the delivery\<close>

lemma starts_with_iff: "starts_with sub s \<longleftrightarrow> (\<exists>post. s = sub @ post)"
  by (induction sub s rule: starts_with.induct) auto

lemma py_in_iff: "py_in sub s \<longleftrightarrow> (\<exists>pre post. s = pre @ sub @ post)"
proof (induction s)
  case Nil
  show ?case by auto
next
  case (Cons c cs)
  show ?case
  proof
    assume "py_in sub (c # cs)"
    then consider "starts_with sub (c # cs)" | "py_in sub cs" by auto
    then show "\<exists>pre post. c # cs = pre @ sub @ post"
    proof cases
      case 1
      then obtain post where "c # cs = sub @ post" by (auto simp: starts_with_iff)
      then have "c # cs = [] @ sub @ post" by simp
      then show ?thesis by blast
    next
      case 2
      with Cons obtain pre post where "cs = pre @ sub @ post" by auto
      then have "c # cs = (c # pre) @ sub @ post" by simp
      then show ?thesis by blast
    qed
  next
    assume "\<exists>pre post. c # cs = pre @ sub @ post"
    then obtain pre post where eq: "c # cs = pre @ sub @ post" by auto
    show "py_in sub (c # cs)"
    proof (cases pre)
      case Nil
      with eq have "starts_with sub (c # cs)" by (auto simp: starts_with_iff)
      then show ?thesis by simp
    next
      case (Cons p ps)
      with eq have "cs = ps @ sub @ post" by simp
      with Cons.IH have "py_in sub cs" by auto
      then show ?thesis by simp
    qed
  qed
qed

lemma try_configs_success:
  "try_config net k config = None \<Longrightarrow> try_configs net k (config # rest) = (True, [config])"
  by simp

lemma try_configs_auth:
  "try_config net k config = Some SMTPAuthenticationError \<Longrightarrow>
   try_configs net k (config # rest) = (False, [config])"
  by simp

lemma try_configs_transient:
  "transient (try_config net k config) \<Longrightarrow>
   try_configs net k (config # rest) =
     (fst (try_configs net (Suc k) rest), config # snd (try_configs net (Suc k) rest))"
  by (cases "try_config net k config" rule: transient.cases) (auto split: prod.splits)

declare try_configs.simps(2) [simp del]

lemma outcome_cases:
  obtains "out = None" | "out = Some SMTPAuthenticationError" | "transient out"
  by (cases out rule: transient.cases) auto

lemma tried_result:
  "fst (try_configs net k configs) \<longleftrightarrow>
     (\<exists>i<length configs. try_config net (k + i) (configs ! i) = None \<and>
        (\<forall>j<i. try_config net (k + j) (configs ! j) \<noteq> Some SMTPAuthenticationError))"
proof (induction configs arbitrary: k)
  case Nil
  show ?case by simp
next
  case (Cons c rest)
  show ?case
  proof (cases "try_config net k c" rule: outcome_cases)
    case 1
    then show ?thesis by (auto simp: try_configs_success)
  next
    case 2
    have "\<not> (\<exists>i<length (c # rest). try_config net (k + i) ((c # rest) ! i) = None \<and>
        (\<forall>j<i. try_config net (k + j) ((c # rest) ! j) \<noteq> Some SMTPAuthenticationError))"
    proof
      assume "\<exists>i<length (c # rest). try_config net (k + i) ((c # rest) ! i) = None \<and>
        (\<forall>j<i. try_config net (k + j) ((c # rest) ! j) \<noteq> Some SMTPAuthenticationError)"
      then obtain i where i: "try_config net (k + i) ((c # rest) ! i) = None"
        "\<forall>j<i. try_config net (k + j) ((c # rest) ! j) \<noteq> Some SMTPAuthenticationError"
        by blast
      show False
      proof (cases i)
        case 0
        with i(1) 2 show False by simp
      next
        case (Suc i')
        with i(2) have "try_config net (k + 0) ((c # rest) ! 0) \<noteq> Some SMTPAuthenticationError"
          by blast
        with 2 show False by simp
      qed
    qed
    with 2 show ?thesis by (simp add: try_configs_auth)
  next
    case 3
    then have c_not: "try_config net k c \<noteq> None" "try_config net k c \<noteq> Some SMTPAuthenticationError"
      by (cases "try_config net k c" rule: transient.cases; simp)+
    have "fst (try_configs net k (c # rest)) = fst (try_configs net (Suc k) rest)"
      using 3 by (simp add: try_configs_transient)
    also have "\<dots> \<longleftrightarrow> (\<exists>i<length rest. try_config net (Suc k + i) (rest ! i) = None \<and>
        (\<forall>j<i. try_config net (Suc k + j) (rest ! j) \<noteq> Some SMTPAuthenticationError))"
      by (rule Cons)
    also have "\<dots> \<longleftrightarrow> (\<exists>i<length (c # rest). try_config net (k + i) ((c # rest) ! i) = None \<and>
        (\<forall>j<i. try_config net (k + j) ((c # rest) ! j) \<noteq> Some SMTPAuthenticationError))"
      using c_not by (auto simp: Ex_less_Suc2 All_less_Suc2)
    finally show ?thesis .
  qed
qed


lemma transient_not_decisive:
  "transient out \<Longrightarrow> out \<noteq> None \<and> out \<noteq> Some SMTPAuthenticationError"
  by (cases out rule: transient.cases) simp_all

lemma try_configs_shape:
  "\<exists>n. snd (try_configs net k configs) = take n configs \<and> n \<le> length configs \<and>
       (configs \<noteq> [] \<longrightarrow> 0 < n) \<and>
       (\<forall>j. Suc j < n \<longrightarrow> transient (try_config net (k + j) (configs ! j))) \<and>
       (fst (try_configs net k configs) \<longleftrightarrow>
          0 < n \<and> try_config net (k + (n - 1)) (configs ! (n - 1)) = None) \<and>
       (n < length configs \<longrightarrow> \<not> transient (try_config net (k + (n - 1)) (configs ! (n - 1))))"
proof (induction configs arbitrary: k)
  case Nil
  show ?case by simp
next
  case (Cons c rest)
  show ?case
  proof (cases "try_config net k c" rule: outcome_cases)
    case 1
    then have "try_configs net k (c # rest) = (True, take 1 (c # rest))"
      by (simp add: try_configs_success)
    with 1 show ?thesis by (intro exI[of _ 1]) simp
  next
    case 2
    then have "try_configs net k (c # rest) = (False, take 1 (c # rest))"
      by (simp add: try_configs_auth)
    with 2 show ?thesis by (intro exI[of _ 1]) simp
  next
    case 3
    from Cons[of "Suc k"] obtain n where n:
      "snd (try_configs net (Suc k) rest) = take n rest" "n \<le> length rest"
      "rest \<noteq> [] \<longrightarrow> 0 < n"
      "\<forall>j. Suc j < n \<longrightarrow> transient (try_config net (Suc k + j) (rest ! j))"
      "fst (try_configs net (Suc k) rest) \<longleftrightarrow>
          0 < n \<and> try_config net (Suc k + (n - 1)) (rest ! (n - 1)) = None"
      "n < length rest \<longrightarrow> \<not> transient (try_config net (Suc k + (n - 1)) (rest ! (n - 1)))"
      by blast
    have eq: "try_configs net k (c # rest) =
        (fst (try_configs net (Suc k) rest), c # snd (try_configs net (Suc k) rest))"
      using 3 by (rule try_configs_transient)
    have tr: "\<forall>j. Suc j < Suc n \<longrightarrow> transient (try_config net (k + j) ((c # rest) ! j))"
    proof (intro allI impI)
      fix j assume "Suc j < Suc n"
      show "transient (try_config net (k + j) ((c # rest) ! j))"
      proof (cases j)
        case 0
        with 3 show ?thesis by simp
      next
        case (Suc j')
        with \<open>Suc j < Suc n\<close> n(4) have "transient (try_config net (Suc k + j') (rest ! j'))"
          by simp
        with Suc show ?thesis by simp
      qed
    qed
    have res: "fst (try_configs net k (c # rest)) \<longleftrightarrow>
        0 < Suc n \<and> try_config net (k + (Suc n - 1)) ((c # rest) ! (Suc n - 1)) = None"
    proof (cases n)
      case 0
      with n(5) eq 3 show ?thesis by (auto dest: transient_not_decisive)
    next
      case (Suc m)
      with n(5) eq show ?thesis by simp
    qed
    have last: "Suc n < length (c # rest) \<longrightarrow>
        \<not> transient (try_config net (k + (Suc n - 1)) ((c # rest) ! (Suc n - 1)))"
    proof (cases n)
      case 0
      with n(3) n(2) show ?thesis by auto
    next
      case (Suc m)
      with n(6) show ?thesis by simp
    qed
    from eq n(1) have "snd (try_configs net k (c # rest)) = take (Suc n) (c # rest)" by simp
    with n(2) tr res last show ?thesis by (intro exI[of _ "Suc n"]) simp
  qed
qed

lemma try_configs_shape0:
  assumes "try_configs net 0 configs = (ok, tried)"
  obtains n where "tried = take n configs" "n \<le> length configs" "configs \<noteq> [] \<longrightarrow> 0 < n"
    "\<forall>j. Suc j < n \<longrightarrow> transient (delivery net configs j)"
    "ok \<longleftrightarrow> 0 < n \<and> delivery net configs (n - 1) = None"
    "n < length configs \<longrightarrow> \<not> transient (delivery net configs (n - 1))"
  using try_configs_shape[of net 0 configs] assms unfolding delivery_def by auto

text \<open>
  C7. Whenever a configuration that \<open>send_email\<close> tries yields an authentication
  failure, the loop stops there: the result is \<open>False\<close> and the configurations tried are
  exactly those up to and including that one, so no later configuration is tried, whatever
  it would yield. Every configuration tried before it failed transiently.
\<close>

theorem auth_failure_stops:
  assumes "try_configs net 0 configs = (ok, tried)"
    and "i < length tried"
    and "delivery net configs i = Some SMTPAuthenticationError"
  shows "\<not> ok \<and> tried = take (Suc i) configs \<and> (\<forall>j<i. transient (delivery net configs j))"
proof -
  from assms(1) obtain n where n: "tried = take n configs" "n \<le> length configs"
    "\<forall>j. Suc j < n \<longrightarrow> transient (delivery net configs j)"
    "ok \<longleftrightarrow> 0 < n \<and> delivery net configs (n - 1) = None"
    by (rule try_configs_shape0)
  from n(1,2) assms(2) have "i < n" by simp
  have "\<not> Suc i < n"
  proof
    assume "Suc i < n"
    with n(3) have "transient (delivery net configs i)" by simp
    with assms(3) show False by simp
  qed
  with \<open>i < n\<close> have ni: "n = Suc i" by simp
  with n(4) assms(3) have "\<not> ok" by simp
  moreover from ni n(1) have "tried = take (Suc i) configs" by simp
  moreover from ni n(3) have "\<forall>j<i. transient (delivery net configs j)" by simp
  ultimately show ?thesis by simp
qed

theorem auth_failure_stops_witness:
  "try_configs login_rejected 0 netease_configs = (False, [\<lparr>port = 465, use_ssl = True, use_tls = False\<rparr>]) \<and>
   (0::nat) < length [\<lparr>port = 465, use_ssl = True, use_tls = False\<rparr>] \<and>
   delivery login_rejected netease_configs 0 = Some SMTPAuthenticationError \<and>
   [\<lparr>port = 465, use_ssl = True, use_tls = False\<rparr>] = take (Suc 0) netease_configs"
proof -
  have a: "try_configs login_rejected 0 netease_configs =
      (False, [\<lparr>port = 465, use_ssl = True, use_tls = False\<rparr>])"
    by code_simp
  have b: "(0::nat) < length [\<lparr>port = 465, use_ssl = True, use_tls = False\<rparr>]" by simp
  have c: "delivery login_rejected netease_configs 0 = Some SMTPAuthenticationError" by code_simp
  from auth_failure_stops[OF a b c] a b c show ?thesis by simp
qed


text \<open>
  C8. For every list of configurations: \<open>send_email\<close> returns \<open>True\<close> exactly when some
  configuration succeeds and none before it yields an authentication failure; the
  configurations tried are an initial segment of the list, in its order; a configuration
  tried that fails transiently is followed by the next one of the list; and when every
  configuration fails transiently the result is \<open>False\<close> and all were tried.
\<close>

theorem failover_result:
  assumes "try_configs net 0 configs = (ok, tried)"
  shows "(ok \<longleftrightarrow>
            (\<exists>i<length configs. delivery net configs i = None \<and>
               (\<forall>j<i. delivery net configs j \<noteq> Some SMTPAuthenticationError))) \<and>
         tried = take (length tried) configs \<and>
         (\<forall>i. i < length tried \<and> transient (delivery net configs i) \<and> Suc i < length configs
               \<longrightarrow> Suc i < length tried) \<and>
         ((\<forall>i<length configs. transient (delivery net configs i)) \<longrightarrow> \<not> ok \<and> tried = configs)"
proof -
  from assms obtain n where n: "tried = take n configs" "n \<le> length configs"
    "configs \<noteq> [] \<longrightarrow> 0 < n"
    "\<forall>j. Suc j < n \<longrightarrow> transient (delivery net configs j)"
    "ok \<longleftrightarrow> 0 < n \<and> delivery net configs (n - 1) = None"
    "n < length configs \<longrightarrow> \<not> transient (delivery net configs (n - 1))"
    by (rule try_configs_shape0)
  from n(1,2) have len: "length tried = n" by simp
  have r1: "ok \<longleftrightarrow>
            (\<exists>i<length configs. delivery net configs i = None \<and>
               (\<forall>j<i. delivery net configs j \<noteq> Some SMTPAuthenticationError))"
    using tried_result[of net 0 configs] assms by (simp add: delivery_def)
  have r2: "tried = take (length tried) configs" using n(1) len by simp
  have r3: "\<forall>i. i < length tried \<and> transient (delivery net configs i) \<and> Suc i < length configs
               \<longrightarrow> Suc i < length tried"
  proof (intro allI impI)
    fix i assume h: "i < length tried \<and> transient (delivery net configs i) \<and> Suc i < length configs"
    show "Suc i < length tried"
    proof (rule ccontr)
      assume "\<not> Suc i < length tried"
      with h len have "n = Suc i" by simp
      with h n(6) show False by simp
    qed
  qed
  have r4: "(\<forall>i<length configs. transient (delivery net configs i)) \<longrightarrow> \<not> ok \<and> tried = configs"
  proof
    assume all: "\<forall>i<length configs. transient (delivery net configs i)"
    have full: "n = length configs"
    proof (rule ccontr)
      assume "n \<noteq> length configs"
      with n(2) have lt: "n < length configs" by simp
      with n(3) have "0 < n" by auto
      with lt have "n - 1 < length configs" by simp
      with all have "transient (delivery net configs (n - 1))" by simp
      with lt n(6) show False by simp
    qed
    have "\<not> ok"
    proof
      assume ok
      with n(5) have pos: "0 < n" and none: "delivery net configs (n - 1) = None" by simp_all
      from pos full have "n - 1 < length configs" by simp
      with all have "transient (delivery net configs (n - 1))" by blast
      with none show False by simp
    qed
    with full n(1) show "\<not> ok \<and> tried = configs" by simp
  qed
  from r1 r2 r3 r4 show ?thesis by blast
qed

theorem failover_result_witness:
  "try_configs ssl_port_closed 0 netease_configs =
     (True, [\<lparr>port = 465, use_ssl = True, use_tls = False\<rparr>,
             \<lparr>port = 25, use_ssl = False, use_tls = False\<rparr>]) \<and>
   transient (delivery ssl_port_closed netease_configs 0) \<and>
   delivery ssl_port_closed netease_configs 1 = None \<and>
   try_configs unreachable 0 netease_configs = (False, netease_configs) \<and>
   transient (delivery unreachable netease_configs 0) \<and>
   transient (delivery unreachable netease_configs 1) \<and>
   transient (delivery unreachable netease_configs 2)"
proof -
  have a: "try_configs ssl_port_closed 0 netease_configs =
     (True, [\<lparr>port = 465, use_ssl = True, use_tls = False\<rparr>,
             \<lparr>port = 25, use_ssl = False, use_tls = False\<rparr>])"
    by code_simp
  have b: "try_configs unreachable 0 netease_configs = (False, netease_configs)"
    by code_simp
  have c: "transient (delivery ssl_port_closed netease_configs 0)"
    "delivery ssl_port_closed netease_configs 1 = None"
    "transient (delivery unreachable netease_configs 0)"
    "transient (delivery unreachable netease_configs 1)"
    "transient (delivery unreachable netease_configs 2)"
    by code_simp+
  from failover_result[OF a] failover_result[OF b] a b c show ?thesis by simp
qed

lemma single_config_tried: "snd (try_configs net k [config]) = [config]"
  by (cases "try_config net k config" rule: outcome_cases)
     (simp_all add: try_configs_success try_configs_auth try_configs_transient)

text \<open>
  C10. For an enabled sender whose server address contains \<open>163.com\<close>, \<open>send_email\<close>
  works through the fixed list SSL(465), no encryption(25), TLS(587): what it tries is a
  non-empty initial segment of that list, and its outcome does not depend on the configured
  port, \<open>use_ssl\<close> and \<open>use_tls\<close>. For every other address it tries exactly the one
  configured combination.
\<close>

theorem netease_fixed_configs:
  assumes "enabled s"
  shows "((\<exists>pre post. smtp_server s = pre @ ''163.com'' @ post) \<longrightarrow>
            configs_of s = netease_configs \<and>
            send_email net s = try_configs net 0 netease_configs \<and>
            (\<exists>n. 0 < n \<and> n \<le> 3 \<and> snd (send_email net s) = take n netease_configs) \<and>
            send_email net (s\<lparr>smtp_port := p, self_use_ssl := a, self_use_tls := b\<rparr>) =
              send_email net s) \<and>
         (\<not> (\<exists>pre post. smtp_server s = pre @ ''163.com'' @ post) \<longrightarrow>
            configs_of s =
              [\<lparr>port = smtp_port s, use_ssl = self_use_ssl s, use_tls = self_use_tls s\<rparr>] \<and>
            snd (send_email net s) =
              [\<lparr>port = smtp_port s, use_ssl = self_use_ssl s, use_tls = self_use_tls s\<rparr>])"
proof (cases "py_in ''163.com'' (smtp_server s)")
  case True
  then have sub: "\<exists>pre post. smtp_server s = pre @ ''163.com'' @ post"
    by (simp add: py_in_iff)
  from True have c: "configs_of s = netease_configs" by (simp add: configs_of_def netease_configs_def)
  with assms have e: "send_email net s = try_configs net 0 netease_configs"
    by (simp add: send_email_def)
  from try_configs_shape[of net 0 netease_configs] obtain n where
    "snd (try_configs net 0 netease_configs) = take n netease_configs" "n \<le> length netease_configs"
    "netease_configs \<noteq> [] \<longrightarrow> 0 < n" by blast
  then have "0 < n \<and> n \<le> 3 \<and> snd (try_configs net 0 netease_configs) = take n netease_configs"
    by (simp add: netease_configs_def)
  with e have t: "\<exists>n. 0 < n \<and> n \<le> 3 \<and> snd (send_email net s) = take n netease_configs" by auto
  from True assms have "send_email net (s\<lparr>smtp_port := p, self_use_ssl := a, self_use_tls := b\<rparr>) =
      send_email net s"
    by (simp add: send_email_def configs_of_def)
  with sub c e t show ?thesis by simp
next
  case False
  then have nsub: "\<not> (\<exists>pre post. smtp_server s = pre @ ''163.com'' @ post)"
    by (simp add: py_in_iff)
  from False have c: "configs_of s =
      [\<lparr>port = smtp_port s, use_ssl = self_use_ssl s, use_tls = self_use_tls s\<rparr>]"
    by (simp add: configs_of_def)
  with assms have "snd (send_email net s) =
      [\<lparr>port = smtp_port s, use_ssl = self_use_ssl s, use_tls = self_use_tls s\<rparr>]"
    by (simp add: send_email_def single_config_tried)
  with nsub c show ?thesis by simp
qed

theorem netease_fixed_configs_witness:
  "enabled sender_163 \<and> smtp_server sender_163 = ''smtp.'' @ ''163.com'' @ [] \<and>
   configs_of sender_163 = netease_configs \<and>
   snd (send_email unreachable sender_163) = netease_configs \<and>
   enabled sender_gmail \<and> \<not> py_in ''163.com'' (smtp_server sender_gmail) \<and>
   snd (send_email unreachable sender_gmail) =
     [\<lparr>port = 587, use_ssl = False, use_tls = True\<rparr>]"
proof -
  have e1: "enabled sender_163" and e2: "enabled sender_gmail"
    by (simp_all add: sender_163_def sender_gmail_def)
  have s1: "smtp_server sender_163 = ''smtp.'' @ ''163.com'' @ []"
    by (simp add: sender_163_def)
  then have x1: "\<exists>pre post. smtp_server sender_163 = pre @ ''163.com'' @ post" by blast
  have n2: "\<not> py_in ''163.com'' (smtp_server sender_gmail)" by code_simp
  then have x2: "\<not> (\<exists>pre post. smtp_server sender_gmail = pre @ ''163.com'' @ post)"
    by (simp add: py_in_iff)
  have t1: "snd (send_email unreachable sender_163) = netease_configs" by code_simp
  from netease_fixed_configs[OF e1, of unreachable] x1
  have c1: "configs_of sender_163 = netease_configs" by blast
  from netease_fixed_configs[OF e2, of unreachable] x2
  have "snd (send_email unreachable sender_gmail) =
      [\<lparr>port = smtp_port sender_gmail, use_ssl = self_use_ssl sender_gmail,
        use_tls = self_use_tls sender_gmail\<rparr>]" by blast
  then have t2: "snd (send_email unreachable sender_gmail) =
      [\<lparr>port = 587, use_ssl = False, use_tls = True\<rparr>]"
    by (simp add: sender_gmail_def)
  from e1 e2 s1 n2 t1 c1 t2 show ?thesis by simp
qed



section \<open>Properties of the retry loop\<close>

text \<open>
  \<open>_analyze_with_retry\<close> for any behaviour of \<open>_analyze_single_stock\<close>: when every
  attempt fails with a transient error, the stock is attempted once per entry of the
  range and the failure returned carries the text of the last attempt.
\<close>

lemma sleep_nonneg: "0 \<le> secs \<Longrightarrow> sleep secs w = Inr (w\<lparr>waited := waited w + secs\<rparr>)"
  by (simp add: sleep_def)

lemma pre_wait_calls:
  assumes "0 \<le> delay_between_requests cfg"
  shows "\<exists>w1. (if attempt > 0 then sleep (delay_between_requests cfg * 2 ^ attempt) w else Inr w) = Inr w1
            \<and> calls w1 = calls w"
proof (cases "attempt > 0")
  case True
  from assms have "0 \<le> delay_between_requests cfg * 2 ^ attempt" by simp
  with True show ?thesis by (simp add: sleep_nonneg)
next
  case False
  then show ?thesis by simp
qed

lemma on_exception_transient:
  assumes "0 \<le> delay_between_requests cfg" and "\<not> is_quota_exceeded_error msg"
  shows "\<exists>w'. on_exception cfg stock attempt msg w = Inr (Next_attempt, w') \<and> calls w' = calls w"
proof -
  from assms(1) have "0 \<le> delay_between_requests cfg * 5 * 2 ^ attempt" by simp
  with assms show ?thesis
    by (auto simp: on_exception_def sleep_nonneg)
qed

lemma retry_loop_all_fail:
  assumes "0 \<le> delay_between_requests cfg"
    and "\<forall>i<length attempts. transient_failure (single (length (calls w) + i) stock)"
  shows "\<exists>w'. retry_loop cfg single stock attempts last_error w =
           Inr (failed_result stock (retry_prefix (max_retries cfg) @
                  (if attempts = [] then fmt_opt last_error
                   else failure_text (single (length (calls w) + (length attempts - 1)) stock))), w')
         \<and> calls w' = calls w @ replicate (length attempts) stock"
  using assms(2)
proof (induction attempts arbitrary: last_error w)
  case Nil
  show ?case by simp
next
  case (Cons a rest)
  from pre_wait_calls[OF assms(1), of a w] obtain w1 where
    w1: "(if a > 0 then sleep (delay_between_requests cfg * 2 ^ a) w else Inr w) = Inr w1"
    "calls w1 = calls w" by blast
  define w2 where "w2 = w1\<lparr>calls := calls w1 @ [stock]\<rparr>"
  have c2: "calls w2 = calls w @ [stock]" by (simp add: w2_def w1(2))
  from Cons.prems have now: "transient_failure (single (length (calls w)) stock)" by force
  have later: "\<forall>i<length rest. transient_failure (single (length (calls w) + Suc i) stock)"
    using Cons.prems by force
  have step: "\<exists>w3 msg. retry_loop cfg single stock (a # rest) last_error w =
                retry_loop cfg single stock rest (Some msg) w3 \<and> calls w3 = calls w @ [stock]
                \<and> msg = failure_text (single (length (calls w)) stock)"
  proof (cases "single (length (calls w)) stock")
    case (Returned result)
    with now obtain msg where m: "error result = Some msg" "msg \<noteq> []"
      by (auto split: option.splits)
    with Returned w1 have "retry_loop cfg single stock (a # rest) last_error w =
        retry_loop cfg single stock rest (Some msg) w2"
      by (simp add: w2_def Let_def)
    with c2 m Returned show ?thesis by auto
  next
    case (Raised msg)
    with now have "\<not> is_quota_exceeded_error msg" by simp
    from on_exception_transient[OF assms(1) this, of stock a w2] obtain w3 where
      "on_exception cfg stock a msg w2 = Inr (Next_attempt, w3)" "calls w3 = calls w2" by blast
    with Raised w1 have "retry_loop cfg single stock (a # rest) last_error w =
        retry_loop cfg single stock rest (Some msg) w3 \<and> calls w3 = calls w2"
      by (simp add: w2_def Let_def)
    with c2 Raised show ?thesis by auto
  qed
  then obtain w3 msg where s: "retry_loop cfg single stock (a # rest) last_error w =
                retry_loop cfg single stock rest (Some msg) w3" "calls w3 = calls w @ [stock]"
                "msg = failure_text (single (length (calls w)) stock)" by blast
  from later s(2) have "\<forall>i<length rest. transient_failure (single (length (calls w3) + i) stock)"
    by simp
  from Cons.IH[OF this, of "Some msg"] obtain w' where
    r: "retry_loop cfg single stock rest (Some msg) w3 =
           Inr (failed_result stock (retry_prefix (max_retries cfg) @
                  (if rest = [] then fmt_opt (Some msg)
                   else failure_text (single (length (calls w3) + (length rest - 1)) stock))), w')"
       "calls w' = calls w3 @ replicate (length rest) stock" by blast
  have msg_eq: "(if rest = [] then fmt_opt (Some msg)
                   else failure_text (single (length (calls w3) + (length rest - 1)) stock))
      = failure_text (single (length (calls w) + (length (a # rest) - 1)) stock)"
    using s(2,3) by (cases rest) simp_all
  from r(2) s(2) have "calls w' = calls w @ replicate (length (a # rest)) stock"
    by (simp add: replicate_append_same)
  with s(1) r(1) msg_eq show ?case by simp
qed

lemma analyze_with_retry_all_fail:
  assumes "0 \<le> max_retries cfg" and "0 \<le> delay_between_requests cfg"
    and "\<forall>i \<le> nat (max_retries cfg). transient_failure (single (length (calls w) + i) stock)"
  shows "\<exists>w'. analyze_with_retry cfg single stock w =
           Inr (failed_result stock (retry_prefix (max_retries cfg) @
                  failure_text (single (length (calls w) + nat (max_retries cfg)) stock)), w')
         \<and> calls w' = calls w @ replicate (nat (max_retries cfg) + 1) stock"
proof -
  let ?as = "[0..<nat (max_retries cfg + 1)]"
  from assms(1) have len: "length ?as = nat (max_retries cfg) + 1" by simp
  then have ne: "?as \<noteq> []" by auto
  from assms(3) len have "\<forall>i<length ?as. transient_failure (single (length (calls w) + i) stock)"
    by simp
  from retry_loop_all_fail[of cfg ?as single w stock None, OF assms(2) this] ne len show ?thesis
    by (simp add: analyze_with_retry_def del: upt_Suc)
qed

lemma lower_char_letter: "letter (lower_char c) = letter c"
proof (cases "65 \<le> (of_char c :: nat) \<and> (of_char c :: nat) \<le> 90")
  case True
  then have "lower_char c = char_of ((of_char c :: nat) + 32)"
    by (simp add: lower_char_def Let_def)
  moreover from True have "((of_char c :: nat) + 32) mod 256 = of_char c + 32" by simp
  ultimately have "(of_char (lower_char c) :: nat) = of_char c + 32" by simp
  with True show ?thesis by (simp add: letter_def)
next
  case False
  have "lower_char c = c"
    unfolding lower_char_def Let_def using False by auto
  then show ?thesis by simp
qed

lemma py_in_skip:
  assumes "py_in kw (xs @ ys)" and "kw \<noteq> []" and "hd kw \<notin> set xs"
  shows "py_in kw ys"
  using assms
proof (induction xs)
  case Nil
  then show ?case by simp
next
  case (Cons x xs)
  from Cons.prems(2) obtain k ks where kw: "kw = k # ks" by (cases kw) auto
  with Cons.prems(3) have "k \<noteq> x" by auto
  with kw have "\<not> starts_with kw (x # xs @ ys)" by simp
  with Cons.prems(1) have "py_in kw (xs @ ys)" by simp
  moreover from Cons.prems(3) have "hd kw \<notin> set xs" by simp
  ultimately show ?case using Cons.IH Cons.prems(2) by blast
qed

lemma digit_char_no_letter: "\<not> letter (digit_char n)"
proof -
  have "n mod 10 < 10" by simp
  then have "(48 + n mod 10) mod 256 = 48 + n mod 10" by simp
  then have "(of_char (digit_char n) :: nat) = 48 + n mod 10" by simp
  with \<open>n mod 10 < 10\<close> show ?thesis unfolding letter_def by linarith
qed

declare digit_char.simps [simp del]

lemma str_nat_no_letter: "\<forall>c \<in> set (str_nat n). \<not> letter c"
proof (induction n rule: str_nat.induct)
  case (1 n)
  show ?case
  proof (cases "n < 10")
    case True
    then have "str_nat n = [digit_char n]" by (subst str_nat.simps) simp
    with digit_char_no_letter show ?thesis by simp
  next
    case False
    then have "str_nat n = str_nat (n div 10) @ [digit_char n]" by (subst str_nat.simps) simp
    with digit_char_no_letter 1 False show ?thesis by simp
  qed
qed


lemma str_int_no_letter: "\<forall>c \<in> set (str_int i). \<not> letter c"
proof -
  have "\<not> letter CHR ''-''" by (simp add: letter_def)
  with str_nat_no_letter show ?thesis by (simp add: str_int_def)
qed

lemma retry_prefix_no_letter: "\<forall>c \<in> set (retry_prefix n). \<not> letter c"
proof -
  have "\<forall>c \<in> set [CHR 0xE9, CHR 0x87, CHR 0x8D, CHR 0xE8, CHR 0xAF, CHR 0x95]. \<not> letter c"
    by (simp add: letter_def)
  moreover have "\<forall>c \<in> set [CHR 0xE6, CHR 0xAC, CHR 0xA1, CHR 0xE5, CHR 0x90, CHR 0x8E, CHR 0xE4,
      CHR 0xBB, CHR 0x8D, CHR 0xE5, CHR 0xA4, CHR 0xB1, CHR 0xE8, CHR 0xB4, CHR 0xA5, CHR 0x3A,
      CHR 0x20]. \<not> letter c"
    by (simp add: letter_def)
  ultimately show ?thesis
    using str_int_no_letter[of n] unfolding retry_prefix_def by (simp only: set_append ball_Un)
qed

lemma lower_no_letter:
  assumes "\<forall>c \<in> set xs. \<not> letter c"
  shows "\<forall>c \<in> set (lower xs). \<not> letter c"
  using assms by (simp add: lower_def lower_char_letter)

lemma keyword_after_prefix:
  assumes "\<forall>c \<in> set p. \<not> letter c" and "kw \<noteq> []" and "letter (hd kw)"
    and "py_in kw (lower (p @ msg))"
  shows "py_in kw (lower msg)"
proof -
  from assms(1) have "\<forall>c \<in> set (lower p). \<not> letter c" by (rule lower_no_letter)
  with assms(3) have "hd kw \<notin> set (lower p)" by blast
  moreover from assms(4) have "py_in kw (lower p @ lower msg)" by (simp add: lower_def)
  ultimately show ?thesis using assms(2) by (blast intro: py_in_skip)
qed

lemma quota_indicators_letters:
  "list_all (\<lambda>kw. kw \<noteq> [] \<and> letter (hd kw)) quota_exceeded_indicators"
  by code_simp

lemma quota_indicator_letter:
  assumes "kw \<in> set quota_exceeded_indicators"
  shows "kw \<noteq> [] \<and> letter (hd kw)"
  using assms quota_indicators_letters unfolding list_all_iff by blast

lemma quota_after_retry_prefix:
  assumes "is_quota_exceeded_error (retry_prefix n @ msg)"
  shows "is_quota_exceeded_error msg"
proof -
  from assms obtain kw where kw: "kw \<in> set quota_exceeded_indicators"
    "py_in kw (lower (retry_prefix n @ msg))"
    unfolding is_quota_exceeded_error_def Let_def list_ex_iff by blast
  from kw(1) have "kw \<noteq> []" "letter (hd kw)" using quota_indicator_letter by blast+
  with keyword_after_prefix[OF retry_prefix_no_letter _ _ kw(2)] have "py_in kw (lower msg)"
    by blast
  with kw(1) show ?thesis unfolding is_quota_exceeded_error_def Let_def list_ex_iff by blast
qed

text \<open>
  Two rate-limit errors raised out of \<open>_analyze_single_stock\<close> and then a success, with
  \<open>max_retries = 2\<close> and a delay of 1: the time slept is the two waits of the handler,
  \<open>5\<close> and \<open>10\<close>, and the waits \<open>2\<close> and \<open>4\<close> that precede every retry.
\<close>

lemma raised_rate_limit_waits:
  assumes "max_retries cfg = 2" and "delay_between_requests cfg = 1"
    and "single (length (calls w)) stock = Raised m0"
    and "is_rate_limit_error m0" and "\<not> is_quota_exceeded_error m0"
    and "single (length (calls w) + 1) stock = Raised m1"
    and "is_rate_limit_error m1" and "\<not> is_quota_exceeded_error m1"
    and "single (length (calls w) + 2) stock = Returned result"
    and "\<not> truthy (error result)"
  shows "analyze_with_retry cfg single stock w =
           Inr (result, w\<lparr>calls := calls w @ [stock, stock, stock],
                          waited := waited w + (5 + 2 + 10 + 4)\<rparr>)"
proof -
  have up: "[0..<nat (max_retries cfg + 1)] = [0, 1, 2]"
    using assms(1) by (simp add: upt_rec numeral_eq_Suc)
  have e0: "on_exception cfg stock 0 m0 w' = Inr (Next_attempt, w'\<lparr>waited := waited w' + 5\<rparr>)" for w'
    using assms(1,2,4,5) by (simp add: on_exception_def sleep_def)
  have e1: "on_exception cfg stock (Suc 0) m1 w' = Inr (Next_attempt, w'\<lparr>waited := waited w' + 10\<rparr>)" for w'
    using assms(1,2,7,8) by (simp add: on_exception_def sleep_def)
  show ?thesis
    unfolding analyze_with_retry_def up
    using assms(2,3,6,9,10) by (simp add: e0 e1 sleep_def Let_def)
qed

section \<open>The batch run\<close>

lemma no_quota_in_none: "\<not> is_quota_exceeded_error (fmt_opt None)"
  by code_simp

lemma no_quota_in_empty: "\<not> is_quota_exceeded_error []"
  by code_simp

lemma no_stats_numeric: "numeric_stats no_stats"
  by (simp add: no_stats_def numeric_entry_def)

lemma single_stock_cases:
  assumes "quota_free a"
  obtains r where "analyze_single_stock g a k stock = Returned r" "symbol r = stock"
      "error r = None" "numeric_analyzer a \<longrightarrow> numeric_stats (stats r)"
  | msg where "analyze_single_stock g a k stock = Returned (failed_result stock msg)"
      "\<not> is_quota_exceeded_error msg"
proof (cases "if g then a k stock else Inr None")
  case (Inl msg)
  then have g and "a k stock = Inl msg" by (auto split: if_splits)
  with assms have "\<not> is_quota_exceeded_error msg" by (auto simp: quota_free_def)
  moreover from Inl have "analyze_single_stock g a k stock = Returned (failed_result stock msg)"
    by (simp add: analyze_single_stock_def single_stock_body_def Let_def)
  ultimately show ?thesis using that(2) by blast
next
  case (Inr found)
  define ps where "ps = (case found of None \<Rightarrow> no_stats
      | Some ins \<Rightarrow> (case raw_state_price_stats ins of None \<Rightarrow> no_stats | Some p \<Rightarrow> p))"
  define r where "r = \<lparr>symbol = stock, market_type = detect_market_type stock, stats = ps,
      llm = found, error = None\<rparr>"
  from Inr have ret: "analyze_single_stock g a k stock = Returned r"
    by (simp add: analyze_single_stock_def single_stock_body_def Let_def r_def ps_def)
  have num: "numeric_analyzer a \<longrightarrow> numeric_stats (stats r)"
  proof
    assume na: "numeric_analyzer a"
    show "numeric_stats (stats r)"
    proof (cases found)
      case None
      then show ?thesis by (simp add: r_def ps_def no_stats_numeric)
    next
      case (Some ins)
      show ?thesis
      proof (cases "raw_state_price_stats ins")
        case None
        with Some show ?thesis by (simp add: r_def ps_def no_stats_numeric)
      next
        case (Some p)
        from Inr \<open>found = Some ins\<close> have "a k stock = Inr (Some ins)"
          by (auto split: if_splits)
        with na Some have "numeric_stats p" unfolding numeric_analyzer_def by blast
        with Some \<open>found = Some ins\<close> show ?thesis by (simp add: r_def ps_def)
      qed
    qed
  qed
  from ret num show ?thesis using that(1)[of r] by (simp add: r_def)
qed

lemma retry_loop_quota_free:
  assumes "0 \<le> delay_between_requests cfg" and "quota_free a"
    and "\<not> is_quota_exceeded_error (fmt_opt last_error)"
  shows "\<exists>r w'. retry_loop cfg (analyze_single_stock g a) stock attempts last_error w = Inr (r, w')
           \<and> symbol r = stock \<and> \<not> quota_stop cfg r \<and> (numeric_analyzer a \<longrightarrow> readable r)"
  using assms(3)
proof (induction attempts arbitrary: last_error w)
  case Nil
  from Nil have "\<not> is_quota_exceeded_error (retry_prefix (max_retries cfg) @ fmt_opt last_error)"
    using quota_after_retry_prefix by blast
  then show ?case by (simp add: failed_result_def quota_stop_def readable_def retry_prefix_def)
next
  case (Cons att rest)
  from pre_wait_calls[OF assms(1), of att w] obtain w1 where
    w1: "(if att > 0 then sleep (delay_between_requests cfg * 2 ^ att) w else Inr w) = Inr w1"
    by blast
  show ?case
  proof (cases rule: single_stock_cases[OF assms(2), of g "length (calls w1)" stock])
    case (1 r)
    with w1 show ?thesis by (simp add: Let_def quota_stop_def readable_def)
  next
    case (2 msg)
    show ?thesis
    proof (cases "msg = []")
      case True
      with 2 w1 show ?thesis
        by (simp add: Let_def quota_stop_def failed_result_def no_quota_in_empty readable_def
            no_stats_numeric)
    next
      case False
      from 2(2) have "\<not> is_quota_exceeded_error (fmt_opt (Some msg))" by simp
      from Cons.IH[OF this] obtain r w' where
        "retry_loop cfg (analyze_single_stock g a) stock rest (Some msg)
           (w1\<lparr>calls := calls w1 @ [stock]\<rparr>) = Inr (r, w')"
        "symbol r = stock" "\<not> quota_stop cfg r" "numeric_analyzer a \<longrightarrow> readable r" by blast
      with 2 w1 False show ?thesis by (simp add: Let_def failed_result_def)
    qed
  qed
qed

lemma batch_loop_quota_free:
  assumes "0 \<le> delay_between_requests cfg" and "quota_free a"
  shows "\<exists>rs' w'. batch_loop cfg (analyze_single_stock g a) symbols bi bs lb items rs w = Inr (rs', w')
           \<and> map symbol (collected rs') = map symbol (collected rs) @ map snd items
           \<and> successful rs' + failed rs' = successful rs + failed rs + length items
           \<and> (numeric_analyzer a \<and> list_all readable (collected rs)
                \<longrightarrow> list_all readable (collected rs'))"
proof (induction items arbitrary: rs w)
  case Nil
  show ?case by simp
next
  case (Cons item rest)
  obtain i stock where item: "item = (i, stock)" by (cases item)
  from retry_loop_quota_free[OF assms no_quota_in_none, of g stock "[0..<nat (max_retries cfg + 1)]" w]
  obtain r w1 where r: "analyze_with_retry cfg (analyze_single_stock g a) stock w = Inr (r, w1)"
    "symbol r = stock" "\<not> quota_stop cfg r" "numeric_analyzer a \<longrightarrow> readable r"
    by (auto simp: analyze_with_retry_def)
  obtain w2 where w2: "(if i < lb then sleep (delay_between_requests cfg) w1 else Inr w1) = Inr w2"
    using assms(1) by (cases "i < lb") (simp_all add: sleep_nonneg)
  define rs2 where "rs2 = (if truthy (error r) then rs\<lparr>failed := failed rs + 1\<rparr>
                           else rs\<lparr>successful := successful rs + 1\<rparr>)\<lparr>collected := collected rs @ [r]\<rparr>"
  have step: "batch_loop cfg (analyze_single_stock g a) symbols bi bs lb (item # rest) rs w =
      batch_loop cfg (analyze_single_stock g a) symbols bi bs lb rest rs2 w2"
    using r w2 by (simp add: item Let_def rs2_def)
  have c2: "map symbol (collected rs2) = map symbol (collected rs) @ [stock]"
    using r(2) by (simp add: rs2_def)
  have n2: "successful rs2 + failed rs2 = successful rs + failed rs + 1"
    by (simp add: rs2_def)
  have g2: "numeric_analyzer a \<and> list_all readable (collected rs)
      \<longrightarrow> list_all readable (collected rs2)"
    using r(4) by (simp add: rs2_def)
  from Cons.IH[of rs2 w2] obtain rs' w' where
    "batch_loop cfg (analyze_single_stock g a) symbols bi bs lb rest rs2 w2 = Inr (rs', w')"
    "map symbol (collected rs') = map symbol (collected rs2) @ map snd rest"
    "successful rs' + failed rs' = successful rs2 + failed rs2 + length rest"
    "numeric_analyzer a \<and> list_all readable (collected rs2)
       \<longrightarrow> list_all readable (collected rs')" by blast
  with step c2 n2 g2 item show ?case by simp
qed

lemma batches_loop_quota_free:
  assumes "0 \<le> delay_between_requests cfg" and "0 \<le> batch_delay_multiplier cfg"
    and "quota_free a"
  shows "\<exists>rs' w'. batches_loop cfg (analyze_single_stock g a) symbols bs nb batches rs w = Inr (rs', w')
           \<and> map symbol (collected rs') = map symbol (collected rs) @ concat (map snd batches)
           \<and> successful rs' + failed rs' =
               successful rs + failed rs + length (concat (map snd batches))
           \<and> (numeric_analyzer a \<and> list_all readable (collected rs)
                \<longrightarrow> list_all readable (collected rs'))"
proof (induction batches arbitrary: rs w)
  case Nil
  show ?case by simp
next
  case (Cons b rest)
  obtain bi batch where b: "b = (bi, batch)" by (cases b)
  from batch_loop_quota_free[OF assms(1,3), of g symbols bi bs "length batch" "enumerate 1 batch" rs w]
  obtain rs1 w1 where l: "batch_loop cfg (analyze_single_stock g a) symbols bi bs (length batch)
        (enumerate 1 batch) rs w = Inr (rs1, w1)"
    "map symbol (collected rs1) = map symbol (collected rs) @ batch"
    "successful rs1 + failed rs1 = successful rs + failed rs + length batch"
    "numeric_analyzer a \<and> list_all readable (collected rs)
       \<longrightarrow> list_all readable (collected rs1)" by auto
  from assms(1,2) have "0 \<le> delay_between_requests cfg * batch_delay_multiplier cfg" by simp
  then obtain w2 where w2: "(if bi < nb
                 then sleep (delay_between_requests cfg * batch_delay_multiplier cfg) w1
                 else Inr w1) = Inr w2"
    by (cases "bi < nb") (simp_all add: sleep_nonneg)
  from Cons.IH[of rs1 w2] obtain rs' w' where
    "batches_loop cfg (analyze_single_stock g a) symbols bs nb rest rs1 w2 = Inr (rs', w')"
    "map symbol (collected rs') = map symbol (collected rs1) @ concat (map snd rest)"
    "successful rs' + failed rs' = successful rs1 + failed rs1 + length (concat (map snd rest))"
    "numeric_analyzer a \<and> list_all readable (collected rs1)
       \<longrightarrow> list_all readable (collected rs')" by blast
  with l w2 b show ?case by simp
qed

lemma concat_slices:
  "concat (map (\<lambda>i. take bs (drop i xs)) (map (\<lambda>k. k * bs) [0..<m])) = take (m * bs) xs"
proof (induction m)
  case 0
  show ?case by simp
next
  case (Suc m)
  have "take (m * bs) xs @ take bs (drop (m * bs) xs) = take (m * bs + bs) xs"
    by (simp add: take_add)
  with Suc show ?case by (simp add: add.commute)
qed

lemma slices_cover:
  assumes "0 < bs"
  shows "length xs \<le> ((length xs + bs - 1) div bs) * bs"
proof -
  have "length xs + bs - 1 = ((length xs + bs - 1) div bs) * bs + (length xs + bs - 1) mod bs"
    by simp
  moreover have "(length xs + bs - 1) mod bs < bs" using assms by simp
  ultimately show ?thesis by linarith
qed

lemma symbol_batches_concat:
  assumes "0 < max_concurrent cfg" and "symbols \<noteq> []"
  shows "\<exists>batches. symbol_batches cfg symbols = Inr batches \<and> concat batches = symbols"
proof -
  define b where "b = min (max_concurrent cfg) (int (length symbols))"
  from assms have pos: "0 < b" by (simp add: b_def)
  then have p: "0 < nat b" by simp
  have c: "concat (map (\<lambda>i. take (nat b) (drop i symbols))
          (map (\<lambda>k. k * nat b) [0..<(length symbols + nat b - 1) div nat b])) = symbols"
    using slices_cover[OF p, of symbols] by (simp only: concat_slices) simp
  from pos have "range_step (length symbols) b =
      Inr (map (\<lambda>k. k * nat b) [0..<(length symbols + nat b - 1) div nat b])"
    by (simp add: range_step_def)
  then have "symbol_batches cfg symbols =
      Inr (map (\<lambda>i. take (nat b) (drop i symbols))
          (map (\<lambda>k. k * nat b) [0..<(length symbols + nat b - 1) div nat b]))"
    unfolding symbol_batches_def Let_def b_def by simp
  with c show ?thesis by blast
qed

text \<open>
  The loops with an analyzer that never raises a quota error: for a non-empty list of
  symbols, a positive \<open>max_concurrent\<close> and non-negative delays they end, with one
  result per symbol in the order of the input, each counted once.
\<close>

lemma analysis_loops_quota_free:
  assumes "0 < max_concurrent cfg" and "symbols \<noteq> []"
    and "0 \<le> delay_between_requests cfg" and "0 \<le> batch_delay_multiplier cfg"
    and "quota_free a"
  shows "\<exists>rs w'. analysis_loops cfg (analyze_single_stock g a) symbols w = Inr (rs, w') \<and>
           map symbol (collected rs) = symbols \<and>
           successful rs + failed rs = length symbols \<and>
           (numeric_analyzer a \<longrightarrow> list_all readable (collected rs))"
proof -
  from symbol_batches_concat[OF assms(1,2)] obtain batches where
    sb: "symbol_batches cfg symbols = Inr batches" "concat batches = symbols" by blast
  from batches_loop_quota_free[OF assms(3,4,5), of g symbols
      "nat (min (max_concurrent cfg) (int (length symbols)))" "length batches"
      "enumerate 1 batches" "\<lparr>collected = [], successful = 0, failed = 0\<rparr>" w]
  obtain rs w' where l: "batches_loop cfg (analyze_single_stock g a) symbols
      (nat (min (max_concurrent cfg) (int (length symbols)))) (length batches)
      (enumerate 1 batches) \<lparr>collected = [], successful = 0, failed = 0\<rparr> w = Inr (rs, w')"
    "map symbol (collected rs) = concat batches"
    "successful rs + failed rs = length (concat batches)"
    "numeric_analyzer a \<longrightarrow> list_all readable (collected rs)" by auto
  with sb show ?thesis by (simp add: analysis_loops_def Let_def)
qed

lemma run_after_loops:
  assumes "analysis_loops cfg single symbols w = Inr (rs, w')"
    and "run_batch_analysis cfg single symbols w = Inr (b, w'')"
  shows "results b = collected rs \<and> total_symbols b = length symbols \<and>
         successful_analyses b = successful rs \<and> failed_analyses b = failed rs \<and> w'' = w'"
  using assms by (auto simp: run_batch_analysis_def split: sum.splits)

lemma readable_summary:
  assumes "list_all readable rs"
  shows "\<exists>sm. generate_summary rs = Inr sm"
proof (cases "filter (\<lambda>r. \<not> truthy (error r)) rs = []")
  case True
  then show ?thesis by (simp add: generate_summary_def)
next
  case False
  from assms have "\<forall>r \<in> set rs. \<not> truthy (error r) \<longrightarrow> numeric_stats (stats r)"
    by (auto simp: list_all_iff readable_def)
  from generate_summary_numeric[OF False this] show ?thesis by blast
qed

lemma run_returns_after_loops:
  assumes "analysis_loops cfg single symbols w = Inr (rs, w')"
    and "list_all readable (collected rs)"
  shows "\<exists>b. run_batch_analysis cfg single symbols w = Inr (b, w')"
proof -
  from readable_summary[OF assms(2)] obtain sm where "generate_summary (collected rs) = Inr sm"
    by blast
  with assms(1) show ?thesis by (simp add: run_batch_analysis_def)
qed

lemma analyze_stock_quota_free: "quota_free (analyze_stock g propagate)"
  by (auto simp: quota_free_def analyze_stock_def split: sum.splits if_splits)

lemma analyze_stock_numeric:
  "numeric_engine propagate \<Longrightarrow> numeric_analyzer (analyze_stock g propagate)"
  unfolding numeric_engine_def numeric_analyzer_def
  by (auto simp: analyze_stock_def split: sum.splits if_splits)

lemma engine_loops:
  assumes "0 < max_concurrent cfg" and "symbols \<noteq> []"
    and "0 \<le> delay_between_requests cfg" and "0 \<le> batch_delay_multiplier cfg"
  shows "\<exists>rs w'.
           analysis_loops cfg (analyze_single_stock g (analyze_stock g propagate)) symbols w =
             Inr (rs, w') \<and>
           map symbol (collected rs) = symbols \<and>
           successful rs + failed rs = length symbols \<and>
           (\<forall>b w''. run_with_engine cfg g propagate symbols w = Inr (b, w'') \<longrightarrow>
              results b = collected rs \<and> total_symbols b = length symbols \<and>
              successful_analyses b = successful rs \<and> failed_analyses b = failed rs) \<and>
           (numeric_engine propagate \<longrightarrow>
              (\<exists>b. run_with_engine cfg g propagate symbols w = Inr (b, w')))"
proof -
  let ?single = "analyze_single_stock g (analyze_stock g propagate)"
  from analysis_loops_quota_free[where a = "analyze_stock g propagate" and g = g and w = w,
      OF assms analyze_stock_quota_free]
  obtain rs w' where l: "analysis_loops cfg ?single symbols w = Inr (rs, w')"
    "map symbol (collected rs) = symbols" "successful rs + failed rs = length symbols"
    "numeric_analyzer (analyze_stock g propagate) \<longrightarrow> list_all readable (collected rs)"
    by blast
  have after: "\<forall>b w''. run_with_engine cfg g propagate symbols w = Inr (b, w'') \<longrightarrow>
      results b = collected rs \<and> total_symbols b = length symbols \<and>
      successful_analyses b = successful rs \<and> failed_analyses b = failed rs"
    using run_after_loops[OF l(1)] by (simp add: run_with_engine_def run_with_analyzer_def)
  have returns: "numeric_engine propagate \<longrightarrow>
      (\<exists>b. run_with_engine cfg g propagate symbols w = Inr (b, w'))"
  proof
    assume "numeric_engine propagate"
    then have "numeric_analyzer (analyze_stock g propagate)" by (rule analyze_stock_numeric)
    with l(4) have "list_all readable (collected rs)" by simp
    from run_returns_after_loops[OF l(1) this]
    show "\<exists>b. run_with_engine cfg g propagate symbols w = Inr (b, w')"
      by (simp add: run_with_engine_def run_with_analyzer_def)
  qed
  from l(1,2,3) after returns show ?thesis by blast
qed

text \<open>
  C3. For a non-empty list of symbols, a positive \<open>max_concurrent\<close>, non-negative
  delays and every engine, whatever it returns or raises at each call (a quota error
  included): the loops of the run end with exactly one result per input symbol, no symbol
  missing and none twice, and each counted once as successful or failed; every
  \<open>BatchAnalysisResult\<close> that the run returns holds these results and counts; and the run
  returns one when the statistics the engine delivers are ones the summary can read.
\<close>

theorem one_result_per_symbol:
  assumes "0 < max_concurrent cfg" and "symbols \<noteq> []"
    and "0 \<le> delay_between_requests cfg" and "0 \<le> batch_delay_multiplier cfg"
  shows "\<exists>rs w'.
           analysis_loops cfg (analyze_single_stock graph (analyze_stock graph propagate))
               symbols w = Inr (rs, w') \<and>
           length (collected rs) = length symbols \<and>
           (\<forall>s. count_list (map symbol (collected rs)) s = count_list symbols s) \<and>
           successful rs + failed rs = length symbols \<and>
           (\<forall>b w''. run_with_engine cfg graph propagate symbols w = Inr (b, w'') \<longrightarrow>
              length (results b) = length symbols \<and>
              (\<forall>s. count_list (map symbol (results b)) s = count_list symbols s) \<and>
              total_symbols b = length symbols \<and>
              successful_analyses b + failed_analyses b = length symbols) \<and>
           (numeric_engine propagate \<longrightarrow>
              (\<exists>b. run_with_engine cfg graph propagate symbols w = Inr (b, w')))"
proof -
  from engine_loops[OF assms, of graph propagate w] obtain rs w' where
    l: "analysis_loops cfg (analyze_single_stock graph (analyze_stock graph propagate))
          symbols w = Inr (rs, w')"
    and m: "map symbol (collected rs) = symbols"
    and n: "successful rs + failed rs = length symbols"
    and a: "\<forall>b w''. run_with_engine cfg graph propagate symbols w = Inr (b, w'') \<longrightarrow>
              results b = collected rs \<and> total_symbols b = length symbols \<and>
              successful_analyses b = successful rs \<and> failed_analyses b = failed rs"
    and r: "numeric_engine propagate \<longrightarrow>
              (\<exists>b. run_with_engine cfg graph propagate symbols w = Inr (b, w'))"
    by blast
  from m have len: "length (collected rs) = length symbols" by (metis length_map)
  from m have cnt: "\<forall>s. count_list (map symbol (collected rs)) s = count_list symbols s" by simp
  have "\<forall>b w''. run_with_engine cfg graph propagate symbols w = Inr (b, w'') \<longrightarrow>
              length (results b) = length symbols \<and>
              (\<forall>s. count_list (map symbol (results b)) s = count_list symbols s) \<and>
              total_symbols b = length symbols \<and>
              successful_analyses b + failed_analyses b = length symbols"
    using a len cnt n by auto
  with l len cnt n r show ?thesis by blast
qed

theorem one_result_per_symbol_witness:
  "0 < max_concurrent default_settings \<and> [''A'', ''B'', ''C'', ''D'', ''E''] \<noteq> [] \<and>
   0 \<le> delay_between_requests default_settings \<and>
   0 \<le> batch_delay_multiplier default_settings \<and>
   is_quota_exceeded_error ''quota exceeded'' \<and>
   numeric_engine (engine_down_on ''C'' ''quota exceeded'') \<and>
   (\<exists>b w'. run_with_engine default_settings True (engine_down_on ''C'' ''quota exceeded'')
              [''A'', ''B'', ''C'', ''D'', ''E''] fresh = Inr (b, w') \<and>
            length (results b) = 5 \<and>
            count_list (map symbol (results b)) ''C'' = 1 \<and>
            successful_analyses b + failed_analyses b = 5) \<and>
   observed (run_with_engine default_settings True (engine_down_on ''C'' ''quota exceeded'')
       [''A'', ''B'', ''C'', ''D'', ''E''] fresh) =
     Inr ([(''A'', None), (''B'', None), (''C'', None), (''D'', None), (''E'', None)],
          [''A'', ''B'', ''C'', ''D'', ''E''])"
proof -
  let ?symbols = "[''A'', ''B'', ''C'', ''D'', ''E'']"
  let ?engine = "engine_down_on ''C'' ''quota exceeded''"
  have h: "0 < max_concurrent default_settings" "?symbols \<noteq> []"
    "0 \<le> delay_between_requests default_settings" "0 \<le> batch_delay_multiplier default_settings"
    by (simp_all add: default_settings_def)
  have q: "is_quota_exceeded_error ''quota exceeded''" by code_simp
  have e: "numeric_engine ?engine"
    by (simp add: numeric_engine_def engine_down_on_def)
  have o: "observed (run_with_engine default_settings True ?engine ?symbols fresh) =
     Inr ([(''A'', None), (''B'', None), (''C'', None), (''D'', None), (''E'', None)],
          [''A'', ''B'', ''C'', ''D'', ''E''])"
    by code_simp
  from one_result_per_symbol[OF h, of True ?engine fresh] e
  obtain b w' where b: "run_with_engine default_settings True ?engine ?symbols fresh = Inr (b, w')"
    and p: "\<forall>b w''. run_with_engine default_settings True ?engine ?symbols fresh = Inr (b, w'') \<longrightarrow>
              length (results b) = length ?symbols \<and>
              (\<forall>s. count_list (map symbol (results b)) s = count_list ?symbols s) \<and>
              total_symbols b = length ?symbols \<and>
              successful_analyses b + failed_analyses b = length ?symbols"
    by blast
  from p b have "length (results b) = 5"
    "count_list (map symbol (results b)) ''C'' = count_list ?symbols ''C''"
    "successful_analyses b + failed_analyses b = 5"
    by auto
  then have "length (results b) = 5 \<and> count_list (map symbol (results b)) ''C'' = 1 \<and>
      successful_analyses b + failed_analyses b = 5" by simp
  with b have "\<exists>b w'. run_with_engine default_settings True ?engine ?symbols fresh = Inr (b, w') \<and>
            length (results b) = 5 \<and>
            count_list (map symbol (results b)) ''C'' = 1 \<and>
            successful_analyses b + failed_analyses b = 5" by blast
  with h q e o show ?thesis by blast
qed

text \<open>
  C4. For a non-empty list of symbols, a positive \<open>max_concurrent\<close>, non-negative
  delays and every engine, whatever it returns or raises at each call: the results the
  loops of the run collect are in the order of the input, symbol by symbol, and so are the
  results of every \<open>BatchAnalysisResult\<close> that the run returns.
\<close>

theorem results_in_input_order:
  assumes "0 < max_concurrent cfg" and "symbols \<noteq> []"
    and "0 \<le> delay_between_requests cfg" and "0 \<le> batch_delay_multiplier cfg"
  shows "\<exists>rs w'.
           analysis_loops cfg (analyze_single_stock graph (analyze_stock graph propagate))
               symbols w = Inr (rs, w') \<and>
           map symbol (collected rs) = symbols \<and>
           (\<forall>b w''. run_with_engine cfg graph propagate symbols w = Inr (b, w'') \<longrightarrow>
              map symbol (results b) = symbols)"
proof -
  from engine_loops[OF assms, of graph propagate w] obtain rs w' where
    l: "analysis_loops cfg (analyze_single_stock graph (analyze_stock graph propagate))
          symbols w = Inr (rs, w')"
    and m: "map symbol (collected rs) = symbols"
    and a: "\<forall>b w''. run_with_engine cfg graph propagate symbols w = Inr (b, w'') \<longrightarrow>
              results b = collected rs \<and> total_symbols b = length symbols \<and>
              successful_analyses b = successful rs \<and> failed_analyses b = failed rs"
    by blast
  from a m have "\<forall>b w''. run_with_engine cfg graph propagate symbols w = Inr (b, w'') \<longrightarrow>
              map symbol (results b) = symbols" by auto
  with l m show ?thesis by blast
qed

theorem results_in_input_order_witness:
  "0 < max_concurrent one_at_a_time \<and>
   [''MSFT'', ''AAPL'', ''GOOG''] \<noteq> [] \<and>
   0 \<le> delay_between_requests one_at_a_time \<and>
   0 \<le> batch_delay_multiplier one_at_a_time \<and>
   (\<exists>rs w'. analysis_loops one_at_a_time
               (analyze_single_stock True
                  (analyze_stock True (engine_down_on ''MSFT'' ''connection reset by peer'')))
               [''MSFT'', ''AAPL'', ''GOOG''] fresh = Inr (rs, w') \<and>
             map symbol (collected rs) = [''MSFT'', ''AAPL'', ''GOOG'']) \<and>
   (\<exists>b w'. run_with_engine one_at_a_time True
              (engine_down_on ''MSFT'' ''connection reset by peer'')
              [''MSFT'', ''AAPL'', ''GOOG''] fresh = Inr (b, w') \<and>
            map symbol (results b) = [''MSFT'', ''AAPL'', ''GOOG''])"
proof -
  let ?symbols = "[''MSFT'', ''AAPL'', ''GOOG'']"
  let ?engine = "engine_down_on ''MSFT'' ''connection reset by peer''"
  have h: "0 < max_concurrent one_at_a_time" "?symbols \<noteq> []"
    "0 \<le> delay_between_requests one_at_a_time" "0 \<le> batch_delay_multiplier one_at_a_time"
    by (simp_all add: one_at_a_time_def default_settings_def)
  have "observed (run_with_engine one_at_a_time True ?engine ?symbols fresh) =
      Inr ([(''MSFT'', None), (''AAPL'', None), (''GOOG'', None)], [''MSFT'', ''AAPL'', ''GOOG''])"
    by code_simp
  then obtain b w' where b: "run_with_engine one_at_a_time True ?engine ?symbols fresh = Inr (b, w')"
    by (cases "run_with_engine one_at_a_time True ?engine ?symbols fresh")
       (auto simp: observed_def)
  from results_in_input_order[OF h, of True ?engine fresh] obtain rs w1 where
    l: "analysis_loops one_at_a_time (analyze_single_stock True (analyze_stock True ?engine))
          ?symbols fresh = Inr (rs, w1)" "map symbol (collected rs) = ?symbols"
    and p: "\<forall>b w''. run_with_engine one_at_a_time True ?engine ?symbols fresh = Inr (b, w'') \<longrightarrow>
              map symbol (results b) = ?symbols"
    by (elim exE conjE)
  from p have "run_with_engine one_at_a_time True ?engine ?symbols fresh = Inr (b, w') \<longrightarrow>
      map symbol (results b) = ?symbols" by (elim allE)
  with b have m: "map symbol (results b) = ?symbols" by (elim impE)
  have x: "\<exists>b w'. run_with_engine one_at_a_time True ?engine ?symbols fresh = Inr (b, w') \<and>
            map symbol (results b) = ?symbols"
  proof (intro exI conjI)
    show "run_with_engine one_at_a_time True ?engine ?symbols fresh = Inr (b, w')" by (rule b)
    show "map symbol (results b) = ?symbols" by (rule m)
  qed
  have y: "\<exists>rs w'. analysis_loops one_at_a_time
               (analyze_single_stock True (analyze_stock True ?engine)) ?symbols fresh =
                 Inr (rs, w') \<and> map symbol (collected rs) = ?symbols"
  proof (intro exI conjI)
    show "analysis_loops one_at_a_time (analyze_single_stock True (analyze_stock True ?engine))
        ?symbols fresh = Inr (rs, w1)" by (rule l(1))
    show "map symbol (collected rs) = ?symbols" by (rule l(2))
  qed
  show ?thesis by (intro conjI h x y)
qed

section \<open>Failures of the engine\<close>

text \<open>
  With the analyzer of the source no failure of the engine reaches the retry loop:
  whatever the engine raises, the stock is attempted once and returned without an error,
  and no result of the retry loop takes the stop on a quota error.
\<close>

lemma engine_exceptions_are_swallowed:
  assumes "0 \<le> max_retries cfg"
  shows "\<exists>r. analyze_with_retry cfg (analyze_single_stock g (analyze_stock g propagate)) stock w =
             Inr (r, w\<lparr>calls := calls w @ [stock]\<rparr>) \<and>
           symbol r = stock \<and> error r = None"
proof -
  from assms have "0 < nat (max_retries cfg + 1)" by simp
  then have up: "[0..<nat (max_retries cfg + 1)] = 0 # [1..<nat (max_retries cfg + 1)]"
    by (simp add: upt_rec)
  have "\<exists>found. (if g then analyze_stock g propagate (length (calls w)) stock else Inr None)
      = Inr found"
    by (cases "propagate (length (calls w)) stock") (simp_all add: analyze_stock_def)
  then obtain found where f: "(if g then analyze_stock g propagate (length (calls w)) stock
      else Inr None) = Inr found" by blast
  then obtain r where r: "analyze_single_stock g (analyze_stock g propagate) (length (calls w)) stock
      = Returned r" "symbol r = stock" "error r = None"
    by (simp add: analyze_single_stock_def single_stock_body_def Let_def)
  then show ?thesis
    unfolding analyze_with_retry_def up by (simp add: Let_def)
qed

lemma quota_stop_not_taken:
  assumes "0 \<le> delay_between_requests cfg"
  shows "\<exists>r w'. analyze_with_retry cfg (analyze_single_stock g (analyze_stock g propagate)) stock w =
             Inr (r, w') \<and> \<not> quota_stop cfg r"
  using retry_loop_quota_free[where a = "analyze_stock g propagate" and g = g and w = w
      and stock = stock and attempts = "[0..<nat (max_retries cfg + 1)]" and last_error = None,
      OF assms analyze_stock_quota_free no_quota_in_none]
  by (auto simp: analyze_with_retry_def)

text \<open>
  C1 fails on the code. A quota error that the analyzer raises reaches the retry loop in
  \<open>result.error\<close> and is retried like any other: when the second attempt succeeds the
  stock ends as a success after two attempts, and when every attempt fails it is attempted
  \<open>max_retries + 1 = 4\<close> times. With the analyzer of the source, an engine that raises a
  quota error leaves the stock a success after one attempt, with no failure counted.
\<close>

theorem quota_failure_is_retried:
  "is_quota_exceeded_error ''quota exceeded'' \<and>
   analyze_with_retry default_settings
       (analyze_single_stock True (raises_first 1 ''quota exceeded'')) ''AAPL'' fresh =
     Inr (plain_result ''AAPL'', \<lparr>calls = [''AAPL'', ''AAPL''], waited = 6\<rparr>) \<and>
   analyze_with_retry default_settings
       (analyze_single_stock True (raises_on ''AAPL'' ''quota exceeded'')) ''AAPL'' fresh =
     Inr (failed_result ''AAPL'' (retry_prefix 3 @ ''quota exceeded''),
          \<lparr>calls = [''AAPL'', ''AAPL'', ''AAPL'', ''AAPL''], waited = 42\<rparr>) \<and>
   run_with_engine default_settings True (engine_down ''quota exceeded'') [''AAPL''] fresh =
     Inr (\<lparr>total_symbols = 1, successful_analyses = 1, failed_analyses = 0,
            results = [plain_result ''AAPL''],
            summary = Summary [(market_us, 1)] 0 [] 1 100\<rparr>,
          \<lparr>calls = [''AAPL''], waited = 0\<rparr>)"
  by code_simp

text \<open>
  C5 fails on the code. An engine that fails at every call with a transient error (one
  that is neither a rate-limit nor a quota error) leaves the stock attempted once, not
  \<open>max_retries + 1 = 4\<close> times, and reported as a success with no failure counted and no
  error recorded: \<open>analyze_stock\<close> catches the exception and returns \<open>None\<close>, so the
  retry loop of \<open>_analyze_with_retry\<close> sees a result without an error.
\<close>

theorem transient_failure_not_retried:
  "\<not> is_rate_limit_error ''connection reset by peer'' \<and>
   \<not> is_quota_exceeded_error ''connection reset by peer'' \<and>
   max_retries default_settings = 3 \<and>
   run_with_engine default_settings True (engine_down ''connection reset by peer'')
       [''AAPL''] fresh =
     Inr (\<lparr>total_symbols = 1, successful_analyses = 1, failed_analyses = 0,
            results =
              [\<lparr>symbol = ''AAPL'', market_type = market_us, stats = no_stats, llm = None,
                error = None\<rparr>],
            summary = Summary [(market_us, 1)] 0 [] 1 100\<rparr>,
          \<lparr>calls = [''AAPL''], waited = 0\<rparr>)"
  by code_simp

text \<open>
  C6 fails on the code. With \<open>max_retries = 2\<close> and a delay of 1, an engine whose first
  two calls fail with a rate-limit error leaves the stock attempted once and reported as a
  success, and the time slept is 0, not 15: the exception is caught in \<open>analyze_stock\<close>,
  so the backoff in the handler of \<open>_analyze_with_retry\<close> is never taken.
\<close>

theorem rate_limit_backoff_not_taken:
  "is_rate_limit_error ''429 Too Many Requests'' \<and>
   \<not> is_quota_exceeded_error ''429 Too Many Requests'' \<and>
   max_retries two_retries = 2 \<and> delay_between_requests two_retries = 1 \<and>
   engine_down_first 2 ''429 Too Many Requests'' 0 ''AAPL'' = Inl ''429 Too Many Requests'' \<and>
   engine_down_first 2 ''429 Too Many Requests'' 1 ''AAPL'' = Inl ''429 Too Many Requests'' \<and>
   engine_down_first 2 ''429 Too Many Requests'' 2 ''AAPL'' =
     Inr \<lparr>insights = ''hold'', raw_state_price_stats = None\<rparr> \<and>
   run_with_engine two_retries True (engine_down_first 2 ''429 Too Many Requests'')
       [''AAPL''] fresh =
     Inr (\<lparr>total_symbols = 1, successful_analyses = 1, failed_analyses = 0,
            results =
              [\<lparr>symbol = ''AAPL'', market_type = market_us, stats = no_stats, llm = None,
                error = None\<rparr>],
            summary = Summary [(market_us, 1)] 0 [] 1 100\<rparr>,
          \<lparr>calls = [''AAPL''], waited = 0\<rparr>)"
  by code_simp

section \<open>The stop on a quota error\<close>

text \<open>
  The stop is taken only when \<open>_analyze_with_retry\<close> returns a result whose error is a
  quota error, which it does not with the analyzer of the source (lemma
  \<open>quota_stop_not_taken\<close>). With an analyzer that raises a quota error for the first of
  three stocks, the \<open>break\<close> comes before the result of that stock is appended and leaves
  the inner loop only: the last stock, already given its placeholder, is analysed in the
  next batch.
\<close>

lemma quota_stop_leaves_inner_loop:
  "observed (run_with_analyzer default_settings True (raises_on ''MSFT'' ''quota exceeded'')
       [''MSFT'', ''AAPL'', ''GOOG''] fresh) =
     Inr ([(''AAPL'', Some quota_skipped), (''GOOG'', Some quota_skipped), (''GOOG'', None)],
          [''MSFT'', ''MSFT'', ''MSFT'', ''MSFT'', ''GOOG''])"
  by code_simp

end
